theory Spec2Isabelle
  imports Main "HOL-Library.Word" "HOL-Library.Signed_Division"
begin

section \<open>The inode layer of the file system (filesys/inode.c)\<close>

text \<open>
  A shallow embedding of \<^verbatim>\<open>src/filesys/inode.c\<close>. The C types are read as on the
  32-bit target of the sources: \<^verbatim>\<open>block_sector_t\<close> and \<^verbatim>\<open>size_t\<close> are unsigned 32-bit
  (modelled as \<open>nat\<close>, the reduction modulo \<open>2 ^ 32\<close> written out where a result
  is converted), \<^verbatim>\<open>off_t\<close> and \<^verbatim>\<open>int\<close> are signed 32-bit (modelled as \<open>int\<close>;
  the division of C, which truncates towards zero, is \<open>sdiv\<close>/\<open>smod\<close>).
  Signed overflow is undefined in C; the theorems below are stated on ranges where
  none occurs.
\<close>

subsection \<open>Constants\<close>

definition INODE_MAGIC :: nat where
  "INODE_MAGIC = 0x494e4f44"

definition DIRECT_BLOCK :: nat where
  "DIRECT_BLOCK = 124"

definition MAX_BLOCK_NUMBER :: nat where
  "MAX_BLOCK_NUMBER = 16637"

text \<open>
  Modelled from the spec: \<^verbatim>\<open>BLOCK_SECTOR_SIZE\<close> is declared in devices/block.h, which is
  not among the sources. The spec fixes the sector size: "a fixed SECTOR_SIZE constant
  (512 bytes in the reference system)"; the assertion in \<^verbatim>\<open>inode_create\<close> that the on-disk
  inode is one sector long agrees (124 * 4 + 4 + 1 + 3 + 4 + 4 = 512).
\<close>

definition BLOCK_SECTOR_SIZE :: nat where
  "BLOCK_SECTOR_SIZE = 512"

text \<open>Conversion of a C integer to an unsigned, respectively signed, 32-bit value.\<close>

definition u32 :: "int \<Rightarrow> nat" where
  "u32 x = nat (x mod 2 ^ 32)"

definition s32 :: "nat \<Rightarrow> int" where
  "s32 n = (if n mod 2 ^ 32 < 2 ^ 31 then int (n mod 2 ^ 32) else int (n mod 2 ^ 32) - 2 ^ 32)"

subsection \<open>Sectors and the on-disk records\<close>

type_synonym byte = "8 word"

type_synonym block_sector_t = nat

datatype error =
  AssertionFailed | OutOfBounds | NullPointer | DanglingPointer | UninitializedPointer

text \<open>
  \<^verbatim>\<open>struct inode_disk\<close>. The field \<^verbatim>\<open>length\<close> is named \<open>length_d\<close> here (\<open>length\<close>
  is the length of a list in HOL). The three padding bytes carry no data: they are
  written as zero (the record is allocated by \<^verbatim>\<open>calloc\<close>) and ignored on reading.
\<close>

record inode_disk =
  sectors :: "block_sector_t list"
  ib :: block_sector_t
  is_directory :: bool
  length_d :: int
  magic :: nat

text \<open>\<^verbatim>\<open>struct indirect_block\<close>: 128 sector numbers, a list of length 128.\<close>

type_synonym indirect_block = "block_sector_t list"

text \<open>
  A C array read \<^verbatim>\<open>a[i]\<close>. Reading outside the array is undefined in C; the model
  makes it the error \<open>OutOfBounds\<close>.
\<close>

definition array_get :: "'a list \<Rightarrow> nat \<Rightarrow> error + 'a" where
  "array_get xs i = (if i < length xs then Inr (xs ! i) else Inl OutOfBounds)"

text \<open>
  The layout of the records in a sector: every 32-bit field is four bytes, least
  significant first (the target is little-endian), in the order of the declaration.
\<close>

definition le32 :: "nat \<Rightarrow> byte list" where
  "le32 n = [word_of_nat n, word_of_nat (n div 256), word_of_nat (n div 65536),
             word_of_nat (n div 16777216)]"

fun le32_val :: "byte list \<Rightarrow> nat" where
  "le32_val [] = 0"
| "le32_val (b # bs) = unat b + 256 * le32_val bs"

definition field32 :: "byte list \<Rightarrow> nat \<Rightarrow> nat" where
  "field32 bs i = le32_val (take 4 (drop (4 * i) bs))"

definition encode_ib :: "indirect_block \<Rightarrow> byte list" where
  "encode_ib blk = concat (map le32 blk)"

definition decode_ib :: "byte list \<Rightarrow> indirect_block" where
  "decode_ib bs = map (field32 bs) [0..<128]"

definition encode_inode :: "inode_disk \<Rightarrow> byte list" where
  "encode_inode d =
     concat (map le32 (sectors d)) @ le32 (ib d)
     @ [if is_directory d then 1 else 0, 0, 0, 0]
     @ le32 (u32 (length_d d)) @ le32 (magic d)"

definition decode_inode :: "byte list \<Rightarrow> inode_disk" where
  "decode_inode bs =
     \<lparr> sectors = map (field32 bs) [0..<124],
       ib = field32 bs 124,
       is_directory = (bs ! 500 \<noteq> 0),
       length_d = s32 (field32 bs 126),
       magic = field32 bs 127 \<rparr>"

text \<open>
  The zero-filled records \<^verbatim>\<open>calloc\<close> returns.
\<close>

definition calloc_inode_disk :: inode_disk where
  "calloc_inode_disk =
     \<lparr> sectors = replicate 124 0, ib = 0, is_directory = False, length_d = 0, magic = 0 \<rparr>"

definition calloc_indirect_block :: indirect_block where
  "calloc_indirect_block = replicate 128 0"

text \<open>
  Modelled from the spec: the block device (devices/block.c) is not among the sources.
  The spec gives its interface, "read_sector(sector_number, destination_buffer)" and
  "write_sector(sector_number, source_buffer)" on fixed-size sectors. The device is a
  function from sector numbers to sector contents; a write stores the first
  \<open>BLOCK_SECTOR_SIZE\<close> bytes of the source buffer.
\<close>

type_synonym block_device = "block_sector_t \<Rightarrow> byte list"

definition block_read :: "block_device \<Rightarrow> block_sector_t \<Rightarrow> byte list" where
  "block_read dev s = dev s"

definition block_write :: "block_device \<Rightarrow> block_sector_t \<Rightarrow> byte list \<Rightarrow> block_device" where
  "block_write dev s buf = dev (s := take BLOCK_SECTOR_SIZE buf)"

subsection \<open>The free-space allocator\<close>

text \<open>
  Modelled from the spec: the free map (filesys/free-map.c) is not among the sources.
  The spec gives its interface: "allocate(count) -> starting_sector | failure",
  "release(starting_sector, count)" and "free_count() -> available_sectors". The map
  is a bitmap, one bit per sector, \<open>True\<close> for a sector in use. The inode layer only
  ever asks for and releases one sector at a time, so the count is fixed to one. The
  spec leaves open which free sector an allocation returns; here it is the free sector
  with the lowest number. A failed allocation leaves the caller's variable as it was.
\<close>

type_synonym free_map = "bool list"

definition free_map_unused :: "free_map \<Rightarrow> nat" where
  "free_map_unused fm = length (filter Not fm)"

fun first_free :: "free_map \<Rightarrow> nat option" where
  "first_free [] = None"
| "first_free (b # bs) = (if b then map_option Suc (first_free bs) else Some 0)"

definition free_map_allocate :: "free_map \<Rightarrow> block_sector_t \<Rightarrow> free_map \<times> block_sector_t" where
  "free_map_allocate fm position =
     (case first_free fm of
        None \<Rightarrow> (fm, position)
      | Some s \<Rightarrow> (fm [s := True], s))"

definition free_map_release :: "free_map \<Rightarrow> block_sector_t \<Rightarrow> free_map" where
  "free_map_release fm s = fm [s := False]"

subsection \<open>Counting the sectors of a file\<close>

text \<open>
  Modelled from the spec: \<^verbatim>\<open>DIV_ROUND_UP\<close> is a macro of round.h, which is not among the
  sources. The spec reads \<^verbatim>\<open>bytes_to_sectors\<close> as "sectors_needed = ceil(length /
  SECTOR_SIZE)", for a length that is not negative.
\<close>

definition DIV_ROUND_UP :: "int \<Rightarrow> int \<Rightarrow> int" where
  "DIV_ROUND_UP x step = (x + step - 1) sdiv step"

definition bytes_to_sectors :: "int \<Rightarrow> nat" where
  "bytes_to_sectors sz = u32 (DIV_ROUND_UP sz (int BLOCK_SECTOR_SIZE))"

text \<open>
  \<^verbatim>\<open>compute_total_sectors\<close>: the argument and the result are \<^verbatim>\<open>size_t\<close>, the two
  locals are \<^verbatim>\<open>int\<close>; the sum is reduced modulo \<open>2 ^ 32\<close> on return.
\<close>

definition compute_total_sectors :: "nat \<Rightarrow> nat" where
  "compute_total_sectors sectors_n =
     (if sectors_n \<le> DIRECT_BLOCK then sectors_n
      else
        let second_level = (sectors_n - DIRECT_BLOCK) div 128;
            indirect_sectors = sectors_n - DIRECT_BLOCK
        in (indirect_sectors + second_level + 1 + DIRECT_BLOCK) mod 2 ^ 32)"

subsection \<open>In-memory inodes and the state of the module\<close>

text \<open>
  \<^verbatim>\<open>struct inode\<close>. The list element \<^verbatim>\<open>elem\<close> is the membership of the inode's address
  in \<open>open_inodes\<close>.
\<close>

record inode =
  sector :: block_sector_t
  open_cnt :: int
  removed :: bool
  deny_write_cnt :: int
  data :: inode_disk

text \<open>A \<^verbatim>\<open>struct inode *\<close>: \<open>None\<close> is the null pointer, \<open>Some a\<close> the address \<open>a\<close>.\<close>

type_synonym inode_ptr = "nat option"

text \<open>
  The state the functions work on: the file system device, the free map, the inodes
  allocated by \<^verbatim>\<open>malloc\<close> (by address) and the list \<^verbatim>\<open>open_inodes\<close> (addresses, the
  front of the list first).
\<close>

record fs =
  fs_device :: block_device
  free_map :: free_map
  heap :: "nat \<rightharpoonup> inode"
  open_inodes :: "nat list"

text \<open>Reading through a \<^verbatim>\<open>struct inode *\<close>; a null or freed pointer is an error.\<close>

definition deref :: "fs \<Rightarrow> inode_ptr \<Rightarrow> error + inode" where
  "deref st p =
     (case p of
        None \<Rightarrow> Inl NullPointer
      | Some a \<Rightarrow> (case heap st a of None \<Rightarrow> Inl DanglingPointer | Some i \<Rightarrow> Inr i))"

definition inode_init :: "fs \<Rightarrow> fs" where
  "inode_init st = st \<lparr> open_inodes := [] \<rparr>"

definition inode_length :: "inode \<Rightarrow> int" where
  "inode_length i = length_d (data i)"

definition inode_get_inumber :: "inode \<Rightarrow> block_sector_t" where
  "inode_get_inumber i = sector i"

subsection \<open>From a byte offset to a sector\<close>

text \<open>
  \<^verbatim>\<open>byte_to_sector\<close>. The result \<^verbatim>\<open>-1\<close> is the \<^verbatim>\<open>block_sector_t\<close> \<open>2 ^ 32 - 1\<close>.
  In the branch for the indirect sectors the source declares
  \<^verbatim>\<open>struct indirect_block *first_ib, *second_ib;\<close>, never assigns either pointer, and
  calls \<^verbatim>\<open>block_read (fs_device, inode->data.ib, first_ib)\<close>: the sector is stored
  through a pointer that was never set. That is undefined behaviour; the model makes it
  the error \<open>UninitializedPointer\<close>, and the reads of \<^verbatim>\<open>first_ib->sectors\<close> and
  \<^verbatim>\<open>second_ib->sectors\<close> after it are never reached.
\<close>

definition byte_to_sector :: "block_device \<Rightarrow> inode \<Rightarrow> int \<Rightarrow> error + block_sector_t" where
  "byte_to_sector dev i pos =
     (if pos < length_d (data i) then
        let index = u32 (pos sdiv int BLOCK_SECTOR_SIZE) in
        if index < DIRECT_BLOCK then array_get (sectors (data i)) index
        else
          let first_ib_index = (index - DIRECT_BLOCK) div 128;
              second_ib_index = (index - DIRECT_BLOCK) mod 128
          in Inl UninitializedPointer
      else Inr (u32 (- 1)))"

subsection \<open>Creating an inode\<close>

text \<open>
  \<^verbatim>\<open>write_sectors_to_disk\<close>, loop by loop. The counter \<^verbatim>\<open>i\<close> counts every sector
  taken from the free map, index sectors included. The result of
  \<^verbatim>\<open>free_map_allocate\<close> is not looked at; \<^verbatim>\<open>position\<close> keeps its value when an
  allocation fails, and its first value is whatever the stack held (the argument
  \<open>position\<close> of \<open>write_sectors_to_disk\<close>). The two \<^verbatim>\<open>calloc\<close>s of index blocks
  are not checked by the source; the model covers the runs where they succeed.
\<close>

function direct_loop ::
  "nat \<Rightarrow> nat \<Rightarrow> free_map \<Rightarrow> block_sector_t \<Rightarrow> inode_disk
     \<Rightarrow> nat \<times> free_map \<times> block_sector_t \<times> inode_disk" where
  "direct_loop i total_sectors fm position disk_inode =
     (if i < total_sectors \<and> i < DIRECT_BLOCK then
        let (fm', position') = free_map_allocate fm position
        in direct_loop (i + 1) total_sectors fm' position'
             (disk_inode \<lparr> sectors := (sectors disk_inode) [i := position'] \<rparr>)
      else (i, fm, position, disk_inode))"
  by pat_completeness auto
termination
  by (relation "measure (\<lambda>(i, t, fm, p, d). t - i)") auto

function second_level_loop ::
  "nat \<Rightarrow> nat \<Rightarrow> nat \<Rightarrow> free_map \<Rightarrow> block_sector_t \<Rightarrow> indirect_block
     \<Rightarrow> nat \<times> free_map \<times> block_sector_t \<times> indirect_block" where
  "second_level_loop k i total_sectors fm position second_level =
     (if k < 128 \<and> i + k < total_sectors then
        let (fm', position') = free_map_allocate fm position
        in second_level_loop (k + 1) i total_sectors fm' position'
             (second_level [k := position'])
      else (k, fm, position, second_level))"
  by pat_completeness auto
termination
  by (relation "measure (\<lambda>(k, i, t, fm, p, s). 128 - k)") auto

function first_level_loop ::
  "nat \<Rightarrow> nat \<Rightarrow> nat \<Rightarrow> free_map \<Rightarrow> block_sector_t \<Rightarrow> indirect_block \<Rightarrow> block_device
     \<Rightarrow> error + (free_map \<times> block_sector_t \<times> indirect_block \<times> block_device)" where
  "first_level_loop i ib_index total_sectors fm position first_level dev =
     (if i < total_sectors then
        if \<not> ib_index < 128 then Inl AssertionFailed
        else
          let second_level = calloc_indirect_block;
              (fm1, position1) = free_map_allocate fm position;
              first_level' = first_level [ib_index := position1];
              (k, fm2, position2, second_level') =
                 second_level_loop 0 (i + 1) total_sectors fm1 position1 second_level;
              dev' = block_write dev (first_level' ! ib_index) (encode_ib second_level')
          in first_level_loop (i + 1 + k) (ib_index + 1) total_sectors fm2 position2
               first_level' dev'
      else Inr (fm, position, first_level, dev))"
  by pat_completeness auto
termination
  by (relation "measure (\<lambda>(i, x, t, r). t - i)") auto

definition write_sectors_to_disk ::
  "nat \<Rightarrow> inode_disk \<Rightarrow> block_sector_t \<Rightarrow> fs \<Rightarrow> error + (inode_disk \<times> fs)" where
  "write_sectors_to_disk total_sectors disk_inode position st =
     (let (i, fm, position1, disk_inode1) =
            direct_loop 0 total_sectors (free_map st) position disk_inode
      in if i < total_sectors then
           let first_level = calloc_indirect_block;
               (fm2, position2) = free_map_allocate fm position1;
               disk_inode2 = disk_inode1 \<lparr> ib := position2 \<rparr>
           in case first_level_loop (i + 1) 0 total_sectors fm2 position2 first_level
                     (fs_device st) of
                Inl e \<Rightarrow> Inl e
              | Inr (fm3, position3, first_level', dev') \<Rightarrow>
                  Inr (disk_inode2,
                       st \<lparr> fs_device := block_write dev' (ib disk_inode2) (encode_ib first_level'),
                            free_map := fm3 \<rparr>)
         else Inr (disk_inode1, st \<lparr> free_map := fm \<rparr>))"

text \<open>
  \<^verbatim>\<open>inode_create\<close>. \<open>mem\<close> says whether the \<^verbatim>\<open>calloc\<close> of the inode record succeeds;
  \<open>position\<close> is the first value of the uninitialised variable of
  \<^verbatim>\<open>write_sectors_to_disk\<close>. A failed \<^verbatim>\<open>ASSERT\<close> is the error \<open>AssertionFailed\<close>.
\<close>

definition inode_create ::
  "bool \<Rightarrow> block_sector_t \<Rightarrow> block_sector_t \<Rightarrow> int \<Rightarrow> fs \<Rightarrow> error + (bool \<times> fs)" where
  "inode_create mem position sector_n len st =
     (if \<not> 0 \<le> len then Inl AssertionFailed
      else if \<not> mem then Inr (False, st)
      else
        let sectors_n = bytes_to_sectors len;
            total_sectors = compute_total_sectors sectors_n
        in if total_sectors > MAX_BLOCK_NUMBER then Inr (False, st)
           else
             let disk_inode = calloc_inode_disk \<lparr> length_d := len, magic := INODE_MAGIC \<rparr>
             in if free_map_unused (free_map st) \<ge> total_sectors + 1 then
                  case write_sectors_to_disk total_sectors disk_inode position st of
                    Inl e \<Rightarrow> Inl e
                  | Inr (disk_inode', st') \<Rightarrow>
                      Inr (True,
                           st' \<lparr> fs_device :=
                                  block_write (fs_device st') sector_n (encode_inode disk_inode') \<rparr>)
                else Inr (False, st))"

subsection \<open>Opening and closing\<close>

text \<open>
  The scan of \<^verbatim>\<open>open_inodes\<close> in \<^verbatim>\<open>inode_open\<close>: the address of the first inode of
  the list with the sector number looked for.
\<close>

fun find_open :: "(nat \<rightharpoonup> inode) \<Rightarrow> nat list \<Rightarrow> block_sector_t \<Rightarrow> error + inode_ptr" where
  "find_open h [] s = Inr None"
| "find_open h (e # es) s =
     (case h e of
        None \<Rightarrow> Inl DanglingPointer
      | Some i \<Rightarrow> if sector i = s then Inr (Some e) else find_open h es s)"

definition inode_reopen :: "inode_ptr \<Rightarrow> fs \<Rightarrow> error + (inode_ptr \<times> fs)" where
  "inode_reopen p st =
     (case p of
        None \<Rightarrow> Inr (None, st)
      | Some a \<Rightarrow>
          (case heap st a of
             None \<Rightarrow> Inl DanglingPointer
           | Some i \<Rightarrow>
               Inr (Some a, st \<lparr> heap := (heap st) (a \<mapsto> i \<lparr> open_cnt := open_cnt i + 1 \<rparr>) \<rparr>)))"

text \<open>
  \<^verbatim>\<open>inode_open\<close>. \<open>m\<close> is what \<^verbatim>\<open>malloc\<close> returns when it is called: \<open>None\<close> when
  memory is exhausted, the address of the new inode otherwise.
\<close>

definition inode_open :: "nat option \<Rightarrow> block_sector_t \<Rightarrow> fs \<Rightarrow> error + (inode_ptr \<times> fs)" where
  "inode_open m sector_n st =
     (case find_open (heap st) (open_inodes st) sector_n of
        Inl e \<Rightarrow> Inl e
      | Inr (Some a) \<Rightarrow> inode_reopen (Some a) st
      | Inr None \<Rightarrow>
          (case m of
             None \<Rightarrow> Inr (None, st)
           | Some a \<Rightarrow>
               Inr (Some a,
                    st \<lparr> heap := (heap st) (a \<mapsto>
                            \<lparr> sector = sector_n, open_cnt = 1, removed = False,
                              deny_write_cnt = 0,
                              data = decode_inode (block_read (fs_device st) sector_n) \<rparr>),
                         open_inodes := a # open_inodes st \<rparr>)))"

text \<open>
  The loop of \<^verbatim>\<open>inode_close\<close> that releases the direct sectors of a removed inode.
\<close>

function release_direct_loop ::
  "nat \<Rightarrow> nat \<Rightarrow> inode_disk \<Rightarrow> free_map \<Rightarrow> error + (nat \<times> free_map)" where
  "release_direct_loop i index d fm =
     (if i < DIRECT_BLOCK \<and> i < index then
        case array_get (sectors d) i of
          Inl e \<Rightarrow> Inl e
        | Inr s \<Rightarrow> release_direct_loop (i + 1) index d (free_map_release fm s)
      else Inr (i, fm))"
  by pat_completeness auto
termination
  by (relation "measure (\<lambda>(i, index, d, fm). index - i)") auto

text \<open>
  \<^verbatim>\<open>inode_close\<close>. \<^verbatim>\<open>list_remove\<close> takes the inode's element out of \<^verbatim>\<open>open_inodes\<close>;
  \<^verbatim>\<open>free\<close> takes the inode out of the heap. When sectors are left after the direct
  ones (\<^verbatim>\<open>i < index\<close>), the source goes on with
  \<^verbatim>\<open>block_read (fs_device, ib, first_ib)\<close>, where \<^verbatim>\<open>first_ib\<close> (like \<^verbatim>\<open>second_ib\<close>) is
  declared and never assigned: the same undefined behaviour as in \<^verbatim>\<open>byte_to_sector\<close>,
  the error \<open>UninitializedPointer\<close>. The two loops over the index sectors that follow
  in the source are never reached.
\<close>

definition inode_close :: "inode_ptr \<Rightarrow> fs \<Rightarrow> error + fs" where
  "inode_close p st =
     (case p of
        None \<Rightarrow> Inr st
      | Some a \<Rightarrow>
          (case heap st a of
             None \<Rightarrow> Inl DanglingPointer
           | Some i \<Rightarrow>
               if open_cnt i - 1 = 0 then
                 let st1 = st \<lparr> open_inodes := remove1 a (open_inodes st) \<rparr> in
                 if removed i then
                   let index = u32 (length_d (data i) sdiv int BLOCK_SECTOR_SIZE) in
                   case release_direct_loop 0 index (data i) (free_map st1) of
                     Inl e \<Rightarrow> Inl e
                   | Inr (i1, fm1) \<Rightarrow>
                       if i1 < index then Inl UninitializedPointer
                       else
                         Inr (st1 \<lparr> free_map := free_map_release fm1 (sector i),
                                   heap := (heap st1) (a := None) \<rparr>)
                 else Inr (st1 \<lparr> heap := (heap st1) (a := None) \<rparr>)
               else Inr (st \<lparr> heap := (heap st) (a \<mapsto> i \<lparr> open_cnt := open_cnt i - 1 \<rparr>) \<rparr>)))"

definition inode_remove :: "inode_ptr \<Rightarrow> fs \<Rightarrow> error + fs" where
  "inode_remove p st =
     (case p of
        None \<Rightarrow> Inl AssertionFailed
      | Some a \<Rightarrow>
          (case heap st a of
             None \<Rightarrow> Inl DanglingPointer
           | Some i \<Rightarrow> Inr (st \<lparr> heap := (heap st) (a \<mapsto> i \<lparr> removed := True \<rparr>) \<rparr>)))"

subsection \<open>Denying and allowing writes\<close>

definition inode_deny_write :: "inode_ptr \<Rightarrow> fs \<Rightarrow> error + fs" where
  "inode_deny_write p st =
     (case p of
        None \<Rightarrow> Inl NullPointer
      | Some a \<Rightarrow>
          (case heap st a of
             None \<Rightarrow> Inl DanglingPointer
           | Some i \<Rightarrow>
               let i' = i \<lparr> deny_write_cnt := deny_write_cnt i + 1 \<rparr> in
               if \<not> deny_write_cnt i' \<le> open_cnt i' then Inl AssertionFailed
               else Inr (st \<lparr> heap := (heap st) (a \<mapsto> i') \<rparr>)))"

definition inode_allow_write :: "inode_ptr \<Rightarrow> fs \<Rightarrow> error + fs" where
  "inode_allow_write p st =
     (case p of
        None \<Rightarrow> Inl NullPointer
      | Some a \<Rightarrow>
          (case heap st a of
             None \<Rightarrow> Inl DanglingPointer
           | Some i \<Rightarrow>
               if \<not> deny_write_cnt i > 0 then Inl AssertionFailed
               else if \<not> deny_write_cnt i \<le> open_cnt i then Inl AssertionFailed
               else Inr (st \<lparr> heap := (heap st)
                               (a \<mapsto> i \<lparr> deny_write_cnt := deny_write_cnt i - 1 \<rparr>) \<rparr>)))"

subsection \<open>Reading and writing\<close>

text \<open>
  \<^verbatim>\<open>memcpy (dst + at, src, n)\<close> on buffers modelled as lists: \<open>n\<close> bytes of \<open>dst\<close>
  from position \<open>at\<close> on are replaced by the first \<open>n\<close> bytes of \<open>src\<close>.
\<close>

definition memcpy :: "byte list \<Rightarrow> nat \<Rightarrow> byte list \<Rightarrow> nat \<Rightarrow> byte list" where
  "memcpy dst at src n = take at dst @ take n src @ drop (at + n) dst"

text \<open>
  The loop of \<^verbatim>\<open>inode_read_at\<close>. \<open>buffer\<close> is the caller's buffer, \<open>mem\<close> says whether
  the \<^verbatim>\<open>malloc\<close> of the bounce buffer succeeds (it is called at most once: the loop
  ends when it fails and keeps the buffer when it succeeds).
\<close>

function read_loop ::
  "block_device \<Rightarrow> inode \<Rightarrow> bool \<Rightarrow> int \<Rightarrow> int \<Rightarrow> int \<Rightarrow> byte list \<Rightarrow> error + (int \<times> byte list)" where
  "read_loop dev i mem sz offset bytes_read buffer =
     (if sz > 0 then
        case byte_to_sector dev i offset of
          Inl e \<Rightarrow> Inl e
        | Inr sector_idx \<Rightarrow>
            let sector_ofs = offset smod int BLOCK_SECTOR_SIZE;
                inode_left = inode_length i - offset;
                sector_left = int BLOCK_SECTOR_SIZE - sector_ofs;
                min_left = (if inode_left < sector_left then inode_left else sector_left);
                chunk_size = (if sz < min_left then sz else min_left)
            in if chunk_size \<le> 0 then Inr (bytes_read, buffer)
               else if sector_ofs = 0 \<and> chunk_size = int BLOCK_SECTOR_SIZE then
                 read_loop dev i mem (sz - chunk_size) (offset + chunk_size)
                   (bytes_read + chunk_size)
                   (memcpy buffer (nat bytes_read) (block_read dev sector_idx) BLOCK_SECTOR_SIZE)
               else if \<not> mem then Inr (bytes_read, buffer)
               else
                 let bounce = block_read dev sector_idx
                 in read_loop dev i mem (sz - chunk_size) (offset + chunk_size)
                      (bytes_read + chunk_size)
                      (memcpy buffer (nat bytes_read) (drop (nat sector_ofs) bounce)
                         (nat chunk_size))
      else Inr (bytes_read, buffer))"
  by pat_completeness auto
termination
  by (relation "measure (\<lambda>(dev, i, mem, sz, r). nat sz)") auto

definition inode_read_at ::
  "bool \<Rightarrow> inode_ptr \<Rightarrow> byte list \<Rightarrow> int \<Rightarrow> int \<Rightarrow> fs \<Rightarrow> error + (int \<times> byte list)" where
  "inode_read_at mem p buffer sz offset st =
     (if sz > 0 then
        case p of
          None \<Rightarrow> Inl AssertionFailed
        | Some a \<Rightarrow>
            (case heap st a of
               None \<Rightarrow> Inl DanglingPointer
             | Some i \<Rightarrow> read_loop (fs_device st) i mem sz offset 0 buffer)
      else Inr (0, buffer))"

text \<open>
  The loop of \<^verbatim>\<open>inode_write_at\<close>. \<open>buffer\<close> is the caller's data; the device changes.
\<close>

function write_loop ::
  "block_device \<Rightarrow> inode \<Rightarrow> bool \<Rightarrow> int \<Rightarrow> int \<Rightarrow> int \<Rightarrow> byte list
     \<Rightarrow> error + (int \<times> block_device)" where
  "write_loop dev i mem sz offset bytes_written buffer =
     (if sz > 0 then
        case byte_to_sector dev i offset of
          Inl e \<Rightarrow> Inl e
        | Inr sector_idx \<Rightarrow>
            let sector_ofs = offset smod int BLOCK_SECTOR_SIZE;
                inode_left = inode_length i - offset;
                sector_left = int BLOCK_SECTOR_SIZE - sector_ofs;
                min_left = (if inode_left < sector_left then inode_left else sector_left);
                chunk_size = (if sz < min_left then sz else min_left)
            in if chunk_size \<le> 0 then Inr (bytes_written, dev)
               else if sector_ofs = 0 \<and> chunk_size = int BLOCK_SECTOR_SIZE then
                 write_loop (block_write dev sector_idx (drop (nat bytes_written) buffer))
                   i mem (sz - chunk_size) (offset + chunk_size) (bytes_written + chunk_size)
                   buffer
               else if \<not> mem then Inr (bytes_written, dev)
               else
                 let bounce0 =
                       (if sector_ofs > 0 \<or> chunk_size < sector_left
                        then block_read dev sector_idx
                        else replicate BLOCK_SECTOR_SIZE 0);
                     bounce = memcpy bounce0 (nat sector_ofs)
                                (drop (nat bytes_written) buffer) (nat chunk_size)
                 in write_loop (block_write dev sector_idx bounce)
                      i mem (sz - chunk_size) (offset + chunk_size)
                      (bytes_written + chunk_size) buffer
      else Inr (bytes_written, dev))"
  by pat_completeness auto
termination
  by (relation "measure (\<lambda>(dev, i, mem, sz, r). nat sz)") auto

text \<open>The two loops are unfolded by hand in the proofs, one round at a time.\<close>

declare read_loop.simps [simp del] write_loop.simps [simp del]

definition inode_write_at ::
  "bool \<Rightarrow> inode_ptr \<Rightarrow> byte list \<Rightarrow> int \<Rightarrow> int \<Rightarrow> fs \<Rightarrow> error + (int \<times> fs)" where
  "inode_write_at mem p buffer sz offset st =
     (case deref st p of
        Inl e \<Rightarrow> Inl e
      | Inr i \<Rightarrow>
          if deny_write_cnt i \<noteq> 0 then Inr (0, st)
          else
            (case write_loop (fs_device st) i mem sz offset 0 buffer of
               Inl e \<Rightarrow> Inl e
             | Inr (bytes_written, dev') \<Rightarrow> Inr (bytes_written, st \<lparr> fs_device := dev' \<rparr>)))"

subsection \<open>Calling sequences and example states\<close>

text \<open>The same operation applied \<open>n\<close> times in a row, stopping at the first error.\<close>

fun repeat_op :: "nat \<Rightarrow> (fs \<Rightarrow> error + fs) \<Rightarrow> fs \<Rightarrow> error + fs" where
  "repeat_op 0 f st = Inr st"
| "repeat_op (Suc n) f st = (case f st of Inl e \<Rightarrow> Inl e | Inr st' \<Rightarrow> repeat_op n f st')"

text \<open>
  A device of zeroed sectors and a free map of 16 sectors in which only sector 10 (kept
  by the caller for an inode) is in use; the same state with every sector in use; and
  an inode that two openers hold.
\<close>

definition fresh_fs :: fs where
  "fresh_fs = \<lparr> fs_device = (\<lambda>s. replicate 512 0),
                free_map = (replicate 16 False) [10 := True],
                heap = Map.empty, open_inodes = [] \<rparr>"

definition full_fs :: fs where
  "full_fs = fresh_fs \<lparr> free_map := replicate 16 True \<rparr>"

definition shared_inode :: inode where
  "shared_inode = \<lparr> sector = 10, open_cnt = 2, removed = False, deny_write_cnt = 0,
                     data = calloc_inode_disk \<lparr> length_d := 600 \<rparr> \<rparr>"

definition shared_fs :: fs where
  "shared_fs = fresh_fs \<lparr> heap := [7 \<mapsto> shared_inode], open_inodes := [7] \<rparr>"

text \<open>The inode \<^verbatim>\<open>inode_open\<close> builds for a sector that is not open yet.\<close>

definition new_inode :: "block_device \<Rightarrow> block_sector_t \<Rightarrow> inode" where
  "new_inode dev s = \<lparr> sector = s, open_cnt = 1, removed = False, deny_write_cnt = 0,
                        data = decode_inode (block_read dev s) \<rparr>"

text \<open>
  An on-disk inode whose fields have the ranges of their C types: 124 direct entries,
  every sector number below \<open>2 ^ 32\<close>, the length a signed 32-bit value.
\<close>

definition inode_disk_ok :: "inode_disk \<Rightarrow> bool" where
  "inode_disk_ok d \<longleftrightarrow>
     length (sectors d) = 124 \<and> list_all (\<lambda>x. x < 2 ^ 32) (sectors d) \<and> ib d < 2 ^ 32
     \<and> - (2 ^ 31) \<le> length_d d \<and> length_d d < 2 ^ 31 \<and> magic d < 2 ^ 32"

text \<open>
  An open inode of 70000 bytes (137 data sectors): the direct sectors are 100 to 223,
  the first-level index is sector 5, whose slot 0 names the second-level index in
  sector 6, whose slot 12 names sector 42.
\<close>

definition indexed_device :: block_device where
  "indexed_device = (\<lambda>s. replicate 512 0)
     (5 := encode_ib ((replicate 128 0) [0 := 6]),
      6 := encode_ib ((replicate 128 0) [12 := 42]))"

definition indexed_inode :: inode where
  "indexed_inode = \<lparr> sector = 10, open_cnt = 1, removed = False, deny_write_cnt = 0,
      data = \<lparr> sectors = [100..<224], ib = 5, is_directory = False, length_d = 70000,
               magic = INODE_MAGIC \<rparr> \<rparr>"

definition indexed_fs :: fs where
  "indexed_fs = \<lparr> fs_device = indexed_device, free_map = replicate 256 True,
                  heap = [7 \<mapsto> indexed_inode], open_inodes = [7] \<rparr>"

text \<open>
  The calling sequence of a file that is created, opened once, removed and closed: the
  states after the creation and after the close.
\<close>

definition create_open_remove_close ::
  "block_sector_t \<Rightarrow> int \<Rightarrow> nat \<Rightarrow> fs \<Rightarrow> error + (fs \<times> fs)" where
  "create_open_remove_close s len a st =
     (case inode_create True 0 s len st of
        Inl e \<Rightarrow> Inl e
      | Inr (ok, st1) \<Rightarrow>
          (case inode_open (Some a) s st1 of
             Inl e \<Rightarrow> Inl e
           | Inr (p, st2) \<Rightarrow>
               (case inode_remove p st2 of
                  Inl e \<Rightarrow> Inl e
                | Inr st3 \<Rightarrow>
                    (case inode_close p st3 of
                       Inl e \<Rightarrow> Inl e
                     | Inr st4 \<Rightarrow> Inr (st1, st4)))))"

text \<open>
  The bytes of a file as the device holds them: data sector \<open>k\<close> of an inode is the
  sector \<^verbatim>\<open>byte_to_sector\<close> finds for the offset \<open>k * 512\<close>; the contents are the data
  sectors, \<^verbatim>\<open>bytes_to_sectors\<close> of the length many, cut at the length.
\<close>

definition data_sector :: "block_device \<Rightarrow> inode \<Rightarrow> nat \<Rightarrow> byte list" where
  "data_sector dev i k =
     (case byte_to_sector dev i (int (k * BLOCK_SECTOR_SIZE)) of
        Inl e \<Rightarrow> []
      | Inr s \<Rightarrow> block_read dev s)"

definition inode_contents :: "block_device \<Rightarrow> inode \<Rightarrow> byte list" where
  "inode_contents dev i =
     take (nat (inode_length i))
       (concat (map (data_sector dev i) [0..<bytes_to_sectors (inode_length i)]))"

text \<open>
  A device whose sectors all have the sector size, and an inode whose file lies in the
  direct sectors: 124 direct entries and a length from 0 to 124 sectors.
\<close>

definition device_ok :: "block_device \<Rightarrow> bool" where
  "device_ok dev \<longleftrightarrow> (\<forall>s. length (dev s) = BLOCK_SECTOR_SIZE)"

definition inode_ok :: "inode \<Rightarrow> bool" where
  "inode_ok i \<longleftrightarrow>
     0 \<le> length_d (data i) \<and> length_d (data i) \<le> 124 * 512
     \<and> length (sectors (data i)) = 124"

text \<open>
  A device each of whose sectors is filled with its own number, and an open inode of
  600 bytes whose two data sectors are 3 and 4.
\<close>

definition numbered_device :: block_device where
  "numbered_device s = replicate 512 (of_nat s)"

definition small_inode :: inode where
  "small_inode = \<lparr> sector = 10, open_cnt = 1, removed = False, deny_write_cnt = 0,
      data = \<lparr> sectors = (replicate 124 0) [0 := 3, 1 := 4], ib = 0, is_directory = False,
               length_d = 600, magic = INODE_MAGIC \<rparr> \<rparr>"

definition small_fs :: fs where
  "small_fs = \<lparr> fs_device = numbered_device, free_map = replicate 16 True,
                heap = [7 \<mapsto> small_inode], open_inodes = [7] \<rparr>"

text \<open>
  A device of zeroed sectors with a free map of 128 sectors, of which only sector 127
  (kept by the caller for an inode) is in use.
\<close>

definition blank_fs :: fs where
  "blank_fs = \<lparr> fs_device = (\<lambda>s. replicate 512 0),
                free_map = replicate 127 False @ [True],
                heap = Map.empty, open_inodes = [] \<rparr>"

section \<open>Properties\<close>

subsection \<open>The number of sectors of a new file\<close>

lemma bytes_to_sectors_eq:
  "0 \<le> len \<Longrightarrow> len < 2 ^ 31 \<Longrightarrow> bytes_to_sectors len = nat ((len + 511) div 512)"
  by (simp add: bytes_to_sectors_def DIV_ROUND_UP_def u32_def BLOCK_SECTOR_SIZE_def
      signed_divide_int_def sgn_if zdiv_int nat_mod_distrib)

text \<open>
  C1. The claim: for every length, \<^verbatim>\<open>inode_create\<close> counts the data sectors plus, beyond
  124 data sectors, one first-level index sector and one second-level index sector per
  started group of 128; for 70000 bytes (137 data sectors) that is 139. The source
  divides by 128 rounding down, so a last group that is not full gets no index sector
  in the count: for 70000 bytes \<^verbatim>\<open>compute_total_sectors\<close> returns 138.
\<close>

theorem compute_total_sectors_70000:
  "bytes_to_sectors 70000 = 137 \<and> compute_total_sectors (bytes_to_sectors 70000) = 138"
  by (simp add: compute_total_sectors_def bytes_to_sectors_def DIV_ROUND_UP_def u32_def
      BLOCK_SECTOR_SIZE_def DIRECT_BLOCK_def signed_divide_int_def)

subsection \<open>Creation that fails\<close>

text \<open>
  C4. When the number of sectors counted for the file is above \<open>MAX_BLOCK_NUMBER\<close>, or
  the free map has fewer free sectors than that number plus one, \<^verbatim>\<open>inode_create\<close>
  returns false and the state is the one it started from: no sector is taken from the
  free map and nothing is written to the device. (The length is not negative, as the
  assertion at the head of \<^verbatim>\<open>inode_create\<close> asks.)
\<close>

theorem inode_create_fails_clean:
  assumes "0 \<le> len"
    and "MAX_BLOCK_NUMBER < compute_total_sectors (bytes_to_sectors len)
         \<or> free_map_unused (free_map st) < compute_total_sectors (bytes_to_sectors len) + 1"
  shows "inode_create mem position sector_n len st = Inr (False, st)"
  using assms by (auto simp add: inode_create_def Let_def)

theorem inode_create_fails_clean_witness:
  "inode_create True 0 10 9000000 fresh_fs = Inr (False, fresh_fs)
   \<and> inode_create True 0 10 600 full_fs = Inr (False, full_fs)"
  using inode_create_fails_clean [of 9000000 fresh_fs True 0 10]
    inode_create_fails_clean [of 600 full_fs True 0 10]
  by (simp add: compute_total_sectors_def bytes_to_sectors_def DIV_ROUND_UP_def u32_def
      BLOCK_SECTOR_SIZE_def DIRECT_BLOCK_def MAX_BLOCK_NUMBER_def signed_divide_int_def
      free_map_unused_def full_fs_def fresh_fs_def)

subsection \<open>Denied writes\<close>

lemma deny_write_repeated:
  "heap st a = Some i \<Longrightarrow> c \<le> open_cnt i \<Longrightarrow> c = deny_write_cnt i + int n \<Longrightarrow>
   repeat_op n (inode_deny_write (Some a)) st
     = Inr (st \<lparr> heap := (heap st) (a \<mapsto> i \<lparr> deny_write_cnt := c \<rparr>) \<rparr>)"
proof (induction n arbitrary: st i)
  case 0
  then show ?case by (simp add: map_upd_triv)
next
  case (Suc n)
  let ?i' = "i \<lparr> deny_write_cnt := deny_write_cnt i + 1 \<rparr>"
  let ?st' = "st \<lparr> heap := (heap st) (a \<mapsto> ?i') \<rparr>"
  from Suc.prems have step: "inode_deny_write (Some a) st = Inr ?st'"
    by (simp add: inode_deny_write_def Let_def)
  have "repeat_op n (inode_deny_write (Some a)) ?st'
      = Inr (?st' \<lparr> heap := (heap ?st') (a \<mapsto> ?i' \<lparr> deny_write_cnt := c \<rparr>) \<rparr>)"
    using Suc.prems by (intro Suc.IH) simp_all
  also have "?st' \<lparr> heap := (heap ?st') (a \<mapsto> ?i' \<lparr> deny_write_cnt := c \<rparr>) \<rparr>
      = st \<lparr> heap := (heap st) (a \<mapsto> i \<lparr> deny_write_cnt := c \<rparr>) \<rparr>"
    by simp
  finally show ?case by (simp only: repeat_op.simps step sum.case)
qed

lemma allow_write_repeated:
  "heap st a = Some i \<Longrightarrow> deny_write_cnt i \<le> open_cnt i \<Longrightarrow> 0 \<le> c
     \<Longrightarrow> c = deny_write_cnt i - int n \<Longrightarrow>
   repeat_op n (inode_allow_write (Some a)) st
     = Inr (st \<lparr> heap := (heap st) (a \<mapsto> i \<lparr> deny_write_cnt := c \<rparr>) \<rparr>)"
proof (induction n arbitrary: st i)
  case 0
  then show ?case by (simp add: map_upd_triv)
next
  case (Suc n)
  let ?i' = "i \<lparr> deny_write_cnt := deny_write_cnt i - 1 \<rparr>"
  let ?st' = "st \<lparr> heap := (heap st) (a \<mapsto> ?i') \<rparr>"
  from Suc.prems have step: "inode_allow_write (Some a) st = Inr ?st'"
    by (simp add: inode_allow_write_def Let_def)
  have "repeat_op n (inode_allow_write (Some a)) ?st'
      = Inr (?st' \<lparr> heap := (heap ?st') (a \<mapsto> ?i' \<lparr> deny_write_cnt := c \<rparr>) \<rparr>)"
    using Suc.prems by (intro Suc.IH) simp_all
  also have "?st' \<lparr> heap := (heap ?st') (a \<mapsto> ?i' \<lparr> deny_write_cnt := c \<rparr>) \<rparr>
      = st \<lparr> heap := (heap st) (a \<mapsto> i \<lparr> deny_write_cnt := c \<rparr>) \<rparr>"
    by simp
  finally show ?case by (simp only: repeat_op.simps step sum.case)
qed

lemma write_denied:
  "heap st a = Some i \<Longrightarrow> 0 < deny_write_cnt i \<Longrightarrow>
   inode_write_at mem (Some a) buffer sz offset st = Inr (0, st)"
  by (simp add: inode_write_at_def deref_def)

text \<open>
  C6. While the deny-write counter of an inode is positive, every \<^verbatim>\<open>inode_write_at\<close>
  returns 0 and leaves the state, the device included, as it was. Starting from a
  counter of zero, \<open>n\<close> calls of \<^verbatim>\<open>inode_deny_write\<close> (by \<open>n\<close> of the openers) give a
  state where writes are refused, and the \<open>n\<close> matching calls of
  \<^verbatim>\<open>inode_allow_write\<close> give back the very state before the first denial, in which
  writes go through the write loop as they did before.
\<close>

theorem deny_write_blocks_until_allowed:
  assumes h: "heap st a = Some i" and z: "deny_write_cnt i = 0"
    and n: "0 < n" "int n \<le> open_cnt i"
  shows "(\<forall>st' j mem buffer sz offset. heap st' a = Some j \<and> 0 < deny_write_cnt j
            \<longrightarrow> inode_write_at mem (Some a) buffer sz offset st' = Inr (0, st'))
         \<and> (\<exists>st'. repeat_op n (inode_deny_write (Some a)) st = Inr st'
               \<and> (\<forall>mem buffer sz offset.
                     inode_write_at mem (Some a) buffer sz offset st' = Inr (0, st'))
               \<and> repeat_op n (inode_allow_write (Some a)) st' = Inr st)
         \<and> (\<forall>mem buffer sz offset. inode_write_at mem (Some a) buffer sz offset st =
               (case write_loop (fs_device st) i mem sz offset 0 buffer of
                  Inl e \<Rightarrow> Inl e
                | Inr (bytes_written, dev') \<Rightarrow> Inr (bytes_written, st \<lparr> fs_device := dev' \<rparr>)))"
proof -
  let ?i' = "i \<lparr> deny_write_cnt := int n \<rparr>"
  let ?st' = "st \<lparr> heap := (heap st) (a \<mapsto> ?i') \<rparr>"
  have d: "repeat_op n (inode_deny_write (Some a)) st = Inr ?st'"
    using z n by (intro deny_write_repeated [OF h]) simp_all
  have w: "inode_write_at mem (Some a) buffer sz offset ?st' = Inr (0, ?st')"
    for mem buffer sz offset
    using n by (intro write_denied [where i = ?i']) simp_all
  have "repeat_op n (inode_allow_write (Some a)) ?st'
      = Inr (?st' \<lparr> heap := (heap ?st') (a \<mapsto> ?i' \<lparr> deny_write_cnt := 0 \<rparr>) \<rparr>)"
    using n by (intro allow_write_repeated) simp_all
  also have "\<dots> = Inr st"
    using h z by (simp add: map_upd_triv)
  finally have a: "repeat_op n (inode_allow_write (Some a)) ?st' = Inr st" .
  have normal: "inode_write_at mem (Some a) buffer sz offset st =
       (case write_loop (fs_device st) i mem sz offset 0 buffer of
          Inl e \<Rightarrow> Inl e
        | Inr (bytes_written, dev') \<Rightarrow> Inr (bytes_written, st \<lparr> fs_device := dev' \<rparr>))"
    for mem buffer sz offset
    using h z by (simp add: inode_write_at_def deref_def)
  from d w a normal show ?thesis
    by (blast intro: write_denied)
qed

theorem deny_write_blocks_until_allowed_witness:
  "\<exists>st'. repeat_op 2 (inode_deny_write (Some 7)) shared_fs = Inr st'
      \<and> inode_write_at True (Some 7) [1, 2, 3] 3 0 st' = Inr (0, st')
      \<and> repeat_op 2 (inode_allow_write (Some 7)) st' = Inr shared_fs"
proof -
  have "heap shared_fs 7 = Some shared_inode" "deny_write_cnt shared_inode = 0"
    "int 2 \<le> open_cnt shared_inode"
    by (simp_all add: shared_fs_def shared_inode_def)
  from deny_write_blocks_until_allowed [OF this(1,2) _ this(3)]
  show ?thesis by simp blast
qed

subsection \<open>Null handles\<close>

text \<open>
  C10. \<^verbatim>\<open>inode_close\<close> of a null pointer returns with the state (the list of open
  inodes, every reference count, the free map and the device) unchanged, and
  \<^verbatim>\<open>inode_reopen\<close> of a null pointer returns the null pointer, the state unchanged.
\<close>

theorem close_reopen_null:
  "inode_close None st = Inr st \<and> inode_reopen None st = Inr (None, st)"
  by (simp add: inode_close_def inode_reopen_def)

subsection \<open>The layout of the records\<close>

lemma length_le32 [simp]: "length (le32 n) = 4"
  by (simp add: le32_def)

lemma le32_val_le32: "le32_val (le32 n) = n mod 2 ^ 32"
proof -
  have two: "m mod 65536 = m mod 256 + 256 * (m div 256 mod 256)" for m :: nat
    using mod_mult2_eq [of m 256 256] by simp
  have hi: "n div 65536 div 256 = n div 16777216"
    by (simp add: div_mult2_eq [symmetric])
  have "n mod 2 ^ 32 = n mod 65536 + 65536 * (n div 65536 mod 65536)"
    using mod_mult2_eq [of n 65536 65536] by simp
  also have "\<dots> = n mod 256 + 256 * (n div 256 mod 256)
      + 65536 * (n div 65536 mod 256 + 256 * (n div 16777216 mod 256))"
    by (simp only: two [of n] two [of "n div 65536"] hi)
  finally show ?thesis
    by (simp add: le32_def unat_of_nat)
qed

lemma length_concat_le32 [simp]: "length (concat (map le32 xs)) = 4 * length xs"
  by (induction xs) simp_all

lemma drop_concat_le32: "drop (4 * k) (concat (map le32 xs)) = concat (map le32 (drop k xs))"
proof (induction xs arbitrary: k)
  case Nil
  then show ?case by simp
next
  case (Cons x xs)
  show ?case
  proof (cases k)
    case 0
    then show ?thesis by simp
  next
    case (Suc j)
    then show ?thesis using Cons.IH [of j] by simp
  qed
qed

lemma field32_concat:
  assumes "k < length xs"
  shows "field32 (concat (map le32 xs) @ rest) k = xs ! k mod 2 ^ 32"
proof -
  from assms obtain y ys where d: "drop k xs = y # ys" and y: "y = xs ! k"
    by (metis Cons_nth_drop_Suc)
  have "drop (4 * k) (concat (map le32 xs) @ rest) = le32 y @ concat (map le32 ys) @ rest"
    using assms by (simp add: drop_concat_le32 d)
  then show ?thesis
    by (simp add: field32_def le32_val_le32 y)
qed

lemma field32_after:
  "field32 (concat (map le32 xs) @ rest) (length xs + j) = field32 rest j"
  by (simp add: field32_def distrib_left)

lemma decode_encode_ib:
  assumes "length blk = 128" "\<forall>x \<in> set blk. x < 2 ^ 32"
  shows "decode_ib (encode_ib blk) = blk"
proof (rule nth_equalityI)
  show "length (decode_ib (encode_ib blk)) = length blk"
    using assms by (simp add: decode_ib_def)
next
  fix k assume "k < length (decode_ib (encode_ib blk))"
  then have k: "k < 128" by (simp add: decode_ib_def)
  with assms have "blk ! k < 2 ^ 32" by simp
  with k assms show "decode_ib (encode_ib blk) ! k = blk ! k"
    using field32_concat [of k blk "[]"] by (simp add: decode_ib_def encode_ib_def)
qed

lemma s32_u32: "- (2 ^ 31) \<le> x \<Longrightarrow> x < 2 ^ 31 \<Longrightarrow> s32 (u32 x) = x"
proof -
  assume x: "- (2 ^ 31) \<le> x" "x < 2 ^ 31"
  have m: "x mod 4294967296 = (if 0 \<le> x then x else x + 4294967296)"
  proof (cases "0 \<le> x")
    case True
    with x show ?thesis by simp
  next
    case False
    with x have "(x + 4294967296) mod 4294967296 = x + 4294967296"
      by (intro mod_pos_pos_trivial) simp_all
    with False show ?thesis by simp
  qed
  from x show ?thesis
    by (auto simp add: s32_def u32_def m)
qed

lemma decode_encode_inode:
  assumes "inode_disk_ok d"
  shows "decode_inode (encode_inode d) = d"
proof -
  let ?tail = "[if is_directory d then 1 else 0, 0, 0, 0] @ le32 (u32 (length_d d)) @ le32 (magic d)"
  let ?xs = "sectors d @ [ib d]"
  have e: "encode_inode d = concat (map le32 ?xs) @ ?tail"
    by (simp add: encode_inode_def)
  have len: "length ?xs = 125" using assms by (simp add: inode_disk_ok_def)
  have small: "x < 2 ^ 32" if "x \<in> set ?xs" for x
    using that assms by (auto simp add: inode_disk_ok_def list_all_iff)
  have f: "field32 (encode_inode d) k = ?xs ! k" if "k < 125" for k
  proof -
    from that len have "?xs ! k \<in> set ?xs" by (metis nth_mem)
    then have "?xs ! k < 2 ^ 32" by (rule small)
    with that len show ?thesis
      unfolding e using field32_concat [of k ?xs ?tail] by simp
  qed
  have s: "map (field32 (encode_inode d)) [0..<124] = sectors d"
  proof (rule nth_equalityI)
    show "length (map (field32 (encode_inode d)) [0..<124]) = length (sectors d)"
      using assms by (simp add: inode_disk_ok_def)
  next
    fix k assume "k < length (map (field32 (encode_inode d)) [0..<124])"
    then have k: "k < 124" by simp
    with f [of k] assms show "map (field32 (encode_inode d)) [0..<124] ! k = sectors d ! k"
      by (simp add: nth_append inode_disk_ok_def)
  qed
  have i: "field32 (encode_inode d) 124 = ib d"
    using f [of 124] assms by (simp add: nth_append inode_disk_ok_def)
  have a: "field32 (encode_inode d) (length ?xs + j) = field32 ?tail j" for j
    unfolding e by (rule field32_after)
  have l: "field32 (encode_inode d) 126 = u32 (length_d d)"
    using a [of 1] len by (simp add: field32_def le32_val_le32 u32_def)
  have m: "field32 (encode_inode d) 127 = magic d"
    using a [of 2] len assms by (simp add: field32_def le32_val_le32 inode_disk_ok_def)
  have b: "encode_inode d ! 500 = (if is_directory d then 1 else 0)"
    using assms by (simp add: encode_inode_def nth_append inode_disk_ok_def)
  show ?thesis
    using assms by (simp add: decode_inode_def s i l m b s32_u32 inode_disk_ok_def)
qed

lemma length_encode_inode: "length (sectors d) = 124 \<Longrightarrow> length (encode_inode d) = 512"
  by (simp add: encode_inode_def)

lemma length_encode_ib: "length blk = 128 \<Longrightarrow> length (encode_ib blk) = 512"
  by (simp add: encode_ib_def)

lemma length_of_encoded_inode:
  assumes "length (sectors d) = 124" "- (2 ^ 31) \<le> length_d d" "length_d d < 2 ^ 31"
  shows "length_d (decode_inode (encode_inode d)) = length_d d"
proof -
  let ?tail = "[if is_directory d then 1 else 0, 0, 0, 0] @ le32 (u32 (length_d d)) @ le32 (magic d)"
  let ?xs = "sectors d @ [ib d]"
  have e: "encode_inode d = concat (map le32 ?xs) @ ?tail"
    by (simp add: encode_inode_def)
  have "field32 (encode_inode d) (length ?xs + 1) = field32 ?tail 1"
    unfolding e by (rule field32_after)
  then have "field32 (encode_inode d) 126 = u32 (length_d d)"
    using assms by (simp add: field32_def le32_val_le32 u32_def)
  with assms show ?thesis
    by (simp add: decode_inode_def s32_u32)
qed

subsection \<open>From a byte offset to a sector\<close>

lemma sector_index_eq:
  "0 \<le> pos \<Longrightarrow> pos < 2 ^ 31 \<Longrightarrow> u32 (pos sdiv int BLOCK_SECTOR_SIZE) = nat pos div 512"
  by (simp add: u32_def BLOCK_SECTOR_SIZE_def signed_divide_int_def sgn_if
      nat_div_distrib nat_mod_distrib)

lemma length_decode_ib [simp]: "length (decode_ib bs) = 128"
  by (simp add: decode_ib_def)

lemma u32_minus_one: "u32 (- 1) = 2 ^ 32 - 1"
  by (simp add: u32_def)

lemma byte_to_sector_direct:
  assumes "0 \<le> pos" "pos < length_d (data i)" "pos < 2 ^ 31" "nat pos div 512 < 124"
    "length (sectors (data i)) = 124"
  shows "byte_to_sector dev i pos = Inr (sectors (data i) ! (nat pos div 512))"
  using assms by (simp add: byte_to_sector_def sector_index_eq array_get_def DIRECT_BLOCK_def)

text \<open>
  C3. The claim: \<^verbatim>\<open>byte_to_sector\<close> returns not-found for an offset at or beyond the
  length, the direct entry for an index below 124, and from index 124 on the data
  sector found through the first-level and the second-level index sector. On the inode
  of 70000 bytes the first two hold: offset 70000 gives \<^verbatim>\<open>-1\<close> and offset 600 gives
  the direct entry 1, sector 101. For offset 69999 (index 136) the claim asks for
  sector 42, slot 12 of the second-level index; the source reads the index sectors
  through pointers it never set and returns no sector.
\<close>

theorem byte_to_sector_indirect_undefined:
  "byte_to_sector indexed_device indexed_inode 70000 = Inr (2 ^ 32 - 1)
   \<and> byte_to_sector indexed_device indexed_inode 600 = Inr 101
   \<and> byte_to_sector indexed_device indexed_inode 69999 = Inl UninitializedPointer"
  by (simp add: byte_to_sector_def indexed_inode_def u32_def BLOCK_SECTOR_SIZE_def
      DIRECT_BLOCK_def array_get_def signed_divide_int_def)

subsection \<open>Opening an inode\<close>

lemma find_open_none:
  "\<forall>e \<in> set es. \<exists>i. h e = Some i \<and> sector i \<noteq> s \<Longrightarrow> find_open h es s = Inr None"
  by (induction es) auto

lemma find_open_some:
  "\<forall>e \<in> set es. h e \<noteq> None \<Longrightarrow> \<exists>e \<in> set es. \<exists>i. h e = Some i \<and> sector i = s \<Longrightarrow>
   \<exists>a i. a \<in> set es \<and> h a = Some i \<and> sector i = s \<and> find_open h es s = Inr (Some a)"
proof (induction es)
  case Nil
  then show ?case by simp
next
  case (Cons e es)
  from Cons.prems(1) obtain j where j: "h e = Some j" by auto
  show ?case
  proof (cases "sector j = s")
    case True
    with j show ?thesis by auto
  next
    case False
    with j Cons.prems have "\<exists>e \<in> set es. \<exists>i. h e = Some i \<and> sector i = s" by auto
    with Cons.IH Cons.prems(1) obtain a i where
      "a \<in> set es" "h a = Some i" "sector i = s" "find_open h es s = Inr (Some a)"
      by auto
    with j False show ?thesis by auto
  qed
qed

text \<open>
  C8. In a state whose list of open inodes holds live inodes only: when an inode of
  the list has the sector number asked for, \<^verbatim>\<open>inode_open\<close> returns the address of
  that inode and adds one to its reference count, whatever \<^verbatim>\<open>malloc\<close> would do; when
  none has, it puts a new inode at the front of the list, with reference count 1 and
  the inode record read from the sector. A second open of the sector then returns the
  same address, the count of the one inode becomes 2 and the list does not grow; closing
  one of the two handles gives back the state after the first open, where the inode is
  still in the list with count 1.
\<close>

theorem inode_open_shares_record:
  assumes wf: "\<forall>e \<in> set (open_inodes st). heap st e \<noteq> None"
  shows "((\<exists>e \<in> set (open_inodes st). \<exists>i. heap st e = Some i \<and> sector i = s) \<longrightarrow>
           (\<exists>a i. a \<in> set (open_inodes st) \<and> heap st a = Some i \<and> sector i = s
              \<and> inode_open m s st =
                  Inr (Some a, st \<lparr> heap := (heap st) (a \<mapsto> i \<lparr> open_cnt := open_cnt i + 1 \<rparr>) \<rparr>)))
       \<and> (\<not> (\<exists>e \<in> set (open_inodes st). \<exists>i. heap st e = Some i \<and> sector i = s) \<longrightarrow>
           (\<forall>a. \<exists>st1 st2.
              inode_open (Some a) s st = Inr (Some a, st1)
              \<and> st1 = st \<lparr> heap := (heap st) (a \<mapsto> new_inode (fs_device st) s),
                           open_inodes := a # open_inodes st \<rparr>
              \<and> inode_open m s st1 = Inr (Some a, st2)
              \<and> st2 = st1 \<lparr> heap := (heap st1)
                             (a \<mapsto> (new_inode (fs_device st) s) \<lparr> open_cnt := 2 \<rparr>) \<rparr>
              \<and> open_inodes st2 = open_inodes st1
              \<and> inode_close (Some a) st2 = Inr st1))"
proof (intro conjI impI allI)
  assume "\<exists>e \<in> set (open_inodes st). \<exists>i. heap st e = Some i \<and> sector i = s"
  with find_open_some [OF wf] obtain a i where
    a: "a \<in> set (open_inodes st)" "heap st a = Some i" "sector i = s"
      "find_open (heap st) (open_inodes st) s = Inr (Some a)"
    by blast
  then have "inode_open m s st =
      Inr (Some a, st \<lparr> heap := (heap st) (a \<mapsto> i \<lparr> open_cnt := open_cnt i + 1 \<rparr>) \<rparr>)"
    by (simp add: inode_open_def inode_reopen_def)
  with a show "\<exists>a i. a \<in> set (open_inodes st) \<and> heap st a = Some i \<and> sector i = s
      \<and> inode_open m s st =
          Inr (Some a, st \<lparr> heap := (heap st) (a \<mapsto> i \<lparr> open_cnt := open_cnt i + 1 \<rparr>) \<rparr>)"
    by blast
next
  fix a
  assume no: "\<not> (\<exists>e \<in> set (open_inodes st). \<exists>i. heap st e = Some i \<and> sector i = s)"
  let ?n = "new_inode (fs_device st) s"
  let ?st1 = "st \<lparr> heap := (heap st) (a \<mapsto> ?n), open_inodes := a # open_inodes st \<rparr>"
  let ?st2 = "?st1 \<lparr> heap := (heap ?st1) (a \<mapsto> ?n \<lparr> open_cnt := 2 \<rparr>) \<rparr>"
  from no wf have "\<forall>e \<in> set (open_inodes st). \<exists>i. heap st e = Some i \<and> sector i \<noteq> s"
    by fastforce
  then have "find_open (heap st) (open_inodes st) s = Inr None"
    by (rule find_open_none)
  then have o1: "inode_open (Some a) s st = Inr (Some a, ?st1)"
    by (simp add: inode_open_def new_inode_def)
  have "find_open (heap ?st1) (open_inodes ?st1) s = Inr (Some a)"
    by (simp add: new_inode_def)
  then have o2: "inode_open m s ?st1 = Inr (Some a, ?st2)"
    by (simp add: inode_open_def inode_reopen_def new_inode_def)
  have "inode_close (Some a) ?st2
      = Inr (?st2 \<lparr> heap := (heap ?st2) (a \<mapsto> ?n \<lparr> open_cnt := 2 \<rparr> \<lparr> open_cnt := 1 \<rparr>) \<rparr>)"
    by (simp add: inode_close_def new_inode_def)
  also have "?st2 \<lparr> heap := (heap ?st2) (a \<mapsto> ?n \<lparr> open_cnt := 2 \<rparr> \<lparr> open_cnt := 1 \<rparr>) \<rparr> = ?st1"
    by (simp add: new_inode_def)
  finally have c: "inode_close (Some a) ?st2 = Inr ?st1" .
  from o1 o2 c
  show "\<exists>st1 st2.
              inode_open (Some a) s st = Inr (Some a, st1)
              \<and> st1 = st \<lparr> heap := (heap st) (a \<mapsto> new_inode (fs_device st) s),
                           open_inodes := a # open_inodes st \<rparr>
              \<and> inode_open m s st1 = Inr (Some a, st2)
              \<and> st2 = st1 \<lparr> heap := (heap st1)
                             (a \<mapsto> (new_inode (fs_device st) s) \<lparr> open_cnt := 2 \<rparr>) \<rparr>
              \<and> open_inodes st2 = open_inodes st1
              \<and> inode_close (Some a) st2 = Inr st1"
    by (intro exI [of _ ?st1] exI [of _ ?st2] conjI) simp_all
qed

theorem inode_open_shares_record_witness:
  "inode_open None 10 shared_fs =
      Inr (Some 7, shared_fs \<lparr> heap := (heap shared_fs) (7 \<mapsto> shared_inode \<lparr> open_cnt := 3 \<rparr>) \<rparr>)
   \<and> (\<exists>st1 st2. inode_open (Some 8) 11 shared_fs = Inr (Some 8, st1)
          \<and> inode_open None 11 st1 = Inr (Some 8, st2)
          \<and> open_inodes st2 = [8, 7]
          \<and> inode_close (Some 8) st2 = Inr st1)"
proof -
  have wf: "\<forall>e \<in> set (open_inodes shared_fs). heap shared_fs e \<noteq> None"
    by (simp add: shared_fs_def)
  have h: "heap shared_fs 7 = Some shared_inode" "open_inodes shared_fs = [7]"
    "sector shared_inode = 10" "open_cnt shared_inode = 2"
    by (simp_all add: shared_fs_def shared_inode_def)
  from inode_open_shares_record [OF wf, of 10 None] h
  have a: "inode_open None 10 shared_fs =
      Inr (Some 7, shared_fs \<lparr> heap := (heap shared_fs) (7 \<mapsto> shared_inode \<lparr> open_cnt := 3 \<rparr>) \<rparr>)"
    by auto
  from inode_open_shares_record [OF wf, of 11 None] h
  have "\<exists>st1 st2. inode_open (Some 8) 11 shared_fs = Inr (Some 8, st1)
          \<and> inode_open None 11 st1 = Inr (Some 8, st2)
          \<and> open_inodes st2 = [8, 7]
          \<and> inode_close (Some 8) st2 = Inr st1"
    by simp
  with a show ?thesis by simp
qed

subsection \<open>Creating an inode\<close>

lemma direct_loop_result:
  "direct_loop i t fm p d = (i', fm', p', d') \<Longrightarrow>
     length_d d' = length_d d \<and> magic d' = magic d \<and> ib d' = ib d
     \<and> is_directory d' = is_directory d
     \<and> length (sectors d') = length (sectors d)
     \<and> i' = (if i < t \<and> i < DIRECT_BLOCK then min t DIRECT_BLOCK else i)"
proof (induction i t fm p d rule: direct_loop.induct)
  case (1 i t fm p d)
  show ?case
  proof (cases "i < t \<and> i < DIRECT_BLOCK")
    case True
    obtain fm1 p1 where a: "free_map_allocate fm p = (fm1, p1)"
      by (cases "free_map_allocate fm p")
    from True a "1.prems"
    have "direct_loop (i + 1) t fm1 p1 (d \<lparr> sectors := (sectors d) [i := p1] \<rparr>) = (i', fm', p', d')"
      by simp
    from "1.IH" [OF True a [symmetric] refl this] True show ?thesis
      by (auto simp add: min_def)
  next
    case False
    with "1.prems" show ?thesis by auto
  qed
qed

lemma second_level_loop_count:
  "fst (second_level_loop k i t fm p s) = (if k < 128 \<and> i + k < t then min 128 (t - i) else k)"
proof (induction k i t fm p s rule: second_level_loop.induct)
  case (1 k i t fm p s)
  show ?case
  proof (cases "k < 128 \<and> i + k < t")
    case True
    obtain fm1 p1 where a: "free_map_allocate fm p = (fm1, p1)"
      by (cases "free_map_allocate fm p")
    from "1.IH" [OF True a [symmetric] refl] True a show ?thesis
      by (subst second_level_loop.simps) (auto simp add: min_def)
  next
    case False
    then show ?thesis by (subst second_level_loop.simps) auto
  qed
qed

lemma first_level_loop_ok:
  "t \<le> 16637 \<Longrightarrow> (i < t \<longrightarrow> i = 125 + 129 * x) \<Longrightarrow>
   \<exists>r. first_level_loop i x t fm p fl dev = Inr r"
proof (induction i x t fm p fl dev rule: first_level_loop.induct)
  case (1 i x t fm p fl dev)
  show ?case
  proof (cases "i < t")
    case False
    then show ?thesis by (subst first_level_loop.simps) simp
  next
    case True
    with "1.prems" have x: "x < 128" by simp
    obtain fm1 p1 where a: "free_map_allocate fm p = (fm1, p1)"
      by (cases "free_map_allocate fm p")
    obtain k fm2 p2 sl where b:
      "second_level_loop 0 (i + 1) t fm1 p1 calloc_indirect_block = (k, fm2, p2, sl)"
      by (cases "second_level_loop 0 (i + 1) t fm1 p1 calloc_indirect_block")
    from second_level_loop_count [of 0 "i + 1" t fm1 p1 calloc_indirect_block] b
    have k: "k = (if i + 1 < t then min 128 (t - (i + 1)) else 0)" by simp
    have inv: "i + 1 + k < t \<longrightarrow> i + 1 + k = 125 + 129 * (x + 1)"
      using True "1.prems" k by (auto simp add: min_def)
    have x': "\<not> \<not> x < 128" using x by simp
    have "\<exists>r. first_level_loop (i + 1 + k) (x + 1) t fm2 p2 (fl [x := p1])
              (block_write dev ((fl [x := p1]) ! x) (encode_ib sl)) = Inr r"
      using "1.IH" [OF True x' refl a [symmetric] refl refl b [symmetric] refl refl refl refl
          "1.prems"(1) inv] .
    with True x a b show ?thesis
      by (subst first_level_loop.simps) (simp add: Let_def)
  qed
qed

lemma write_sectors_to_disk_ok:
  assumes "t \<le> 16637"
  shows "\<exists>d' st'. write_sectors_to_disk t d p st = Inr (d', st')
           \<and> length_d d' = length_d d \<and> magic d' = magic d
           \<and> is_directory d' = is_directory d
           \<and> length (sectors d') = length (sectors d)
           \<and> heap st' = heap st \<and> open_inodes st' = open_inodes st"
proof -
  obtain i fm1 p1 d1 where dl: "direct_loop 0 t (free_map st) p d = (i, fm1, p1, d1)"
    by (cases "direct_loop 0 t (free_map st) p d")
  note r = direct_loop_result [OF dl]
  show ?thesis
  proof (cases "i < t")
    case False
    with dl r show ?thesis by (simp add: write_sectors_to_disk_def)
  next
    case True
    with r have i: "i = 124" by (auto simp add: DIRECT_BLOCK_def min_def split: if_splits)
    obtain fm2 p2 where a: "free_map_allocate fm1 p1 = (fm2, p2)"
      by (cases "free_map_allocate fm1 p1")
    have inv: "i + 1 < t \<longrightarrow> i + 1 = 125 + 129 * 0" using i by simp
    from first_level_loop_ok [OF assms inv]
    obtain r where
      "first_level_loop (i + 1) 0 t fm2 p2 calloc_indirect_block (fs_device st) = Inr r"
      by blast
    moreover obtain fm3 p3 fl dev' where "r = (fm3, p3, fl, dev')"
      by (cases r)
    ultimately have
      "first_level_loop (i + 1) 0 t fm2 p2 calloc_indirect_block (fs_device st)
         = Inr (fm3, p3, fl, dev')"
      by simp
    with True dl a r show ?thesis by (simp add: write_sectors_to_disk_def)
  qed
qed

lemma compute_total_sectors_ceiling:
  assumes "n \<le> 16508"
  shows "compute_total_sectors n \<le> 16637"
proof -
  from assms have "(n - 124) div 128 \<le> (16508 - 124) div 128"
    by (intro div_le_mono) simp
  with assms show ?thesis
    by (simp add: compute_total_sectors_def DIRECT_BLOCK_def Let_def)
qed

lemma bytes_to_sectors_ceiling:
  "0 \<le> len \<Longrightarrow> len \<le> 8452096 \<Longrightarrow> bytes_to_sectors len \<le> 16508"
  by (simp add: bytes_to_sectors_eq)

lemma length_calloc_sectors: "length (sectors calloc_inode_disk) = 124"
  by (simp add: calloc_inode_disk_def)

lemma fresh_unused: "free_map_unused (free_map fresh_fs) = 15"
  by (simp add: fresh_fs_def free_map_unused_def eval_nat_numeral)

text \<open>
  C9. For every length from 0 to the ceiling of \<open>(124 + 128 * 128) * 512\<close> bytes:
  when the free map has the sectors \<^verbatim>\<open>inode_create\<close> asks for and no open inode has
  the sector number \<open>s\<close>, \<^verbatim>\<open>inode_create\<close> succeeds and a following \<^verbatim>\<open>inode_open\<close>
  of \<open>s\<close> gives an inode whose \<^verbatim>\<open>inode_length\<close> is the length created. For length 0
  the free map is left as it was and the one write to the device is the inode record,
  with length 0 and the magic number, to sector \<open>s\<close>.
\<close>

theorem create_open_length:
  assumes len: "0 \<le> len" "len \<le> (124 + 128 * 128) * 512"
    and free: "compute_total_sectors (bytes_to_sectors len) + 1 \<le> free_map_unused (free_map st)"
    and wf: "\<forall>e \<in> set (open_inodes st). \<exists>i. heap st e = Some i \<and> sector i \<noteq> s"
  shows "(\<exists>st1 st2 i. inode_create True position s len st = Inr (True, st1)
            \<and> inode_open (Some a) s st1 = Inr (Some a, st2)
            \<and> heap st2 a = Some i \<and> inode_length i = len)
         \<and> (len = 0 \<longrightarrow>
              inode_create True position s len st =
                Inr (True, st \<lparr> fs_device := block_write (fs_device st) s
                      (encode_inode (calloc_inode_disk \<lparr> length_d := 0, magic := INODE_MAGIC \<rparr>)) \<rparr>))"
proof
  let ?t = "compute_total_sectors (bytes_to_sectors len)"
  let ?d = "calloc_inode_disk \<lparr> length_d := len, magic := INODE_MAGIC \<rparr>"
  from len have t: "?t \<le> 16637"
    by (intro compute_total_sectors_ceiling bytes_to_sectors_ceiling) simp_all
  from write_sectors_to_disk_ok [OF t, of ?d position st] obtain d' st' where
    w: "write_sectors_to_disk ?t ?d position st = Inr (d', st')"
    and d': "length_d d' = len" "length (sectors d') = 124"
    and st': "heap st' = heap st" "open_inodes st' = open_inodes st"
    by (auto simp add: length_calloc_sectors)
  let ?st1 = "st' \<lparr> fs_device := block_write (fs_device st') s (encode_inode d') \<rparr>"
  from len t free w have c: "inode_create True position s len st = Inr (True, ?st1)"
    by (simp add: inode_create_def Let_def MAX_BLOCK_NUMBER_def)
  from wf st' have f: "find_open (heap ?st1) (open_inodes ?st1) s = Inr None"
    by (intro find_open_none) simp
  let ?n = "new_inode (fs_device ?st1) s"
  let ?st2 = "?st1 \<lparr> heap := (heap ?st1) (a \<mapsto> ?n), open_inodes := a # open_inodes ?st1 \<rparr>"
  from f have o: "inode_open (Some a) s ?st1 = Inr (Some a, ?st2)"
    by (simp add: inode_open_def new_inode_def)
  have h: "heap ?st2 a = Some ?n"
    by simp
  have "block_read (fs_device ?st1) s = encode_inode d'"
    using d' by (simp add: block_read_def block_write_def BLOCK_SECTOR_SIZE_def length_encode_inode)
  then have l: "inode_length ?n = len"
    using d' len by (simp add: inode_length_def new_inode_def length_of_encoded_inode)
  from c o h l show "\<exists>st1 st2 i. inode_create True position s len st = Inr (True, st1)
            \<and> inode_open (Some a) s st1 = Inr (Some a, st2)
            \<and> heap st2 a = Some i \<and> inode_length i = len"
    by blast
next
  show "len = 0 \<longrightarrow>
     inode_create True position s len st =
       Inr (True, st \<lparr> fs_device := block_write (fs_device st) s
             (encode_inode (calloc_inode_disk \<lparr> length_d := 0, magic := INODE_MAGIC \<rparr>)) \<rparr>)"
  proof
    assume z: "len = 0"
    have b: "bytes_to_sectors 0 = 0"
      by (simp add: bytes_to_sectors_eq)
    have "write_sectors_to_disk 0 d position st = Inr (d, st)" for d
      by (simp add: write_sectors_to_disk_def)
    with z b free show "inode_create True position s len st =
       Inr (True, st \<lparr> fs_device := block_write (fs_device st) s
             (encode_inode (calloc_inode_disk \<lparr> length_d := 0, magic := INODE_MAGIC \<rparr>)) \<rparr>)"
      by (simp add: inode_create_def compute_total_sectors_def MAX_BLOCK_NUMBER_def)
  qed
qed

theorem create_open_length_witness:
  "(\<exists>st1 st2 i. inode_create True 0 10 600 fresh_fs = Inr (True, st1)
            \<and> inode_open (Some 7) 10 st1 = Inr (Some 7, st2)
            \<and> heap st2 7 = Some i \<and> inode_length i = 600)
   \<and> inode_create True 0 10 0 fresh_fs =
                Inr (True, fresh_fs \<lparr> fs_device := block_write (fs_device fresh_fs) 10
                      (encode_inode (calloc_inode_disk \<lparr> length_d := 0, magic := INODE_MAGIC \<rparr>)) \<rparr>)"
proof -
  have t: "compute_total_sectors (bytes_to_sectors 600) = 2" "compute_total_sectors (bytes_to_sectors 0) = 0"
    by (simp_all add: bytes_to_sectors_eq compute_total_sectors_def DIRECT_BLOCK_def)
  have o: "\<forall>e \<in> set (open_inodes fresh_fs). \<exists>i. heap fresh_fs e = Some i \<and> sector i \<noteq> 10"
    by (simp add: fresh_fs_def)
  from create_open_length [of 600 fresh_fs 10 0 7] create_open_length [of 0 fresh_fs 10 0 7] o
  show ?thesis by (simp add: t fresh_unused)
qed

subsection \<open>Reading\<close>

lemma byte_to_sector_defined:
  assumes "0 \<le> pos" "pos < length_d (data i)" "length_d (data i) \<le> 124 * 512"
    "length (sectors (data i)) = 124"
  shows "\<exists>s. byte_to_sector dev i pos = Inr s"
proof -
  from assms have "nat pos < 124 * 512" by simp
  then have "nat pos div 512 < 124" by (simp add: div_less_iff_less_mult)
  with assms show ?thesis by (simp add: byte_to_sector_direct)
qed

lemma byte_to_sector_same_sector:
  assumes "0 \<le> pos" "pos < length_d (data i)" "pos < 2 ^ 31"
  shows "byte_to_sector dev i pos = byte_to_sector dev i (int (nat pos div 512 * BLOCK_SECTOR_SIZE))"
proof -
  let ?q = "int (nat pos div 512 * BLOCK_SECTOR_SIZE)"
  have q: "0 \<le> ?q" "?q \<le> pos"
    using assms by (simp_all add: BLOCK_SECTOR_SIZE_def zdiv_int [symmetric] del: of_nat_mult)
  with assms have "?q < length_d (data i)" "?q < 2 ^ 31" by simp_all
  moreover have "u32 (?q sdiv int BLOCK_SECTOR_SIZE) = u32 (pos sdiv int BLOCK_SECTOR_SIZE)"
    using assms q \<open>?q < 2 ^ 31\<close>
    by (simp only: sector_index_eq) (simp add: BLOCK_SECTOR_SIZE_def)
  ultimately show ?thesis
    using assms by (simp add: byte_to_sector_def)
qed

lemma concat_chunk:
  assumes "\<forall>x \<in> set xss. length x = m" "k < length xss" "r + c \<le> m"
  shows "take c (drop (k * m + r) (concat xss)) = take c (drop r (xss ! k))"
  using assms
proof (induction xss arbitrary: k)
  case Nil
  then show ?case by simp
next
  case (Cons xs xss)
  show ?case
  proof (cases k)
    case 0
    with Cons.prems show ?thesis by simp
  next
    case (Suc j)
    with Cons.prems have "take c (drop (j * m + r) (concat xss)) = take c (drop r (xss ! j))"
      by (intro Cons.IH) simp_all
    with Suc Cons.prems show ?thesis by (simp add: add.assoc)
  qed
qed

lemma smod_nonneg: "0 \<le> x \<Longrightarrow> x smod int BLOCK_SECTOR_SIZE = x mod 512"
  by (simp add: signed_modulo_int_def BLOCK_SECTOR_SIZE_def sgn_if)

lemma length_concat_uniform:
  "\<forall>x \<in> set xss. length x = m \<Longrightarrow> length (concat xss) = length xss * m"
  by (induction xss) simp_all

lemma data_sector_read:
  assumes "0 \<le> pos" "pos < length_d (data i)" "pos < 2 ^ 31"
    and "byte_to_sector dev i pos = Inr s"
  shows "block_read dev s = data_sector dev i (nat pos div 512)"
proof -
  from byte_to_sector_same_sector [OF assms(1-3), of dev] assms(4)
  have "byte_to_sector dev i (int (nat pos div 512 * BLOCK_SECTOR_SIZE)) = Inr s"
    by simp
  then show ?thesis
    unfolding data_sector_def by (simp only: sum.case)
qed

lemma length_data_sector:
  assumes "device_ok dev" "length_d (data i) \<le> 124 * 512"
    "length (sectors (data i)) = 124" "int (k * 512) < length_d (data i)"
  shows "length (data_sector dev i k) = 512"
proof -
  from byte_to_sector_defined [of "int (k * 512)" i dev] assms
  obtain s where "byte_to_sector dev i (int (k * 512)) = Inr s" by auto
  with assms(1) show ?thesis
    by (simp add: data_sector_def BLOCK_SECTOR_SIZE_def block_read_def device_ok_def)
qed

lemma sectors_cover:
  assumes "0 \<le> len" "len < 2 ^ 31"
  shows "k < bytes_to_sectors len \<longleftrightarrow> int (k * 512) < len"
proof -
  have "bytes_to_sectors len = (nat len + 511) div 512"
    using assms by (simp add: bytes_to_sectors_eq nat_div_distrib nat_add_distrib)
  moreover have "k < (nat len + 511) div 512 \<longleftrightarrow> Suc k \<le> (nat len + 511) div 512"
    by auto
  moreover have "Suc k \<le> (nat len + 511) div 512 \<longleftrightarrow> Suc k * 512 \<le> nat len + 511"
    by (simp add: less_eq_div_iff_mult_less_eq)
  ultimately show ?thesis using assms by auto
qed

lemma length_inode_contents:
  assumes "device_ok dev" "inode_ok i"
  shows "length (inode_contents dev i) = nat (length_d (data i))"
proof -
  let ?L = "length_d (data i)"
  let ?xss = "map (data_sector dev i) [0..<bytes_to_sectors ?L]"
  from assms have L: "0 \<le> ?L" "?L < 2 ^ 31" by (simp_all add: inode_ok_def)
  have u: "\<forall>x \<in> set ?xss. length x = 512"
    using assms by (auto simp add: sectors_cover [OF L] inode_ok_def intro!: length_data_sector)
  have "nat ?L \<le> bytes_to_sectors ?L * 512"
    using L by (simp add: bytes_to_sectors_eq) 
  with length_concat_uniform [OF u] show ?thesis
    by (simp add: inode_contents_def inode_length_def)
qed

lemma inode_contents_chunk:
  assumes "device_ok dev" "inode_ok i"
    and "off + c \<le> nat (length_d (data i))" "off mod 512 + c \<le> 512" "0 < c"
  shows "take c (drop off (inode_contents dev i))
       = take c (drop (off mod 512) (data_sector dev i (off div 512)))"
proof -
  let ?L = "length_d (data i)"
  let ?xss = "map (data_sector dev i) [0..<bytes_to_sectors ?L]"
  from assms have L: "0 \<le> ?L" "?L < 2 ^ 31" by (simp_all add: inode_ok_def)
  have u: "\<forall>x \<in> set ?xss. length x = 512"
    using assms by (auto simp add: sectors_cover [OF L] inode_ok_def intro!: length_data_sector)
  from assms have "int (off div 512 * 512) < ?L" by linarith
  then have k: "off div 512 < length ?xss"
    by (simp add: sectors_cover [OF L])
  have "take c (drop off (inode_contents dev i)) = take c (drop off (concat ?xss))"
    using assms(3) by (simp add: inode_contents_def inode_length_def drop_take min_def)
  also have "off = off div 512 * 512 + off mod 512" by simp
  also have "take c (drop (off div 512 * 512 + off mod 512) (concat ?xss))
      = take c (drop (off mod 512) (?xss ! (off div 512)))"
    using u k assms(4) by (rule concat_chunk)
  also have "?xss ! (off div 512) = data_sector dev i (off div 512)"
    using k by simp
  finally show ?thesis by simp
qed

lemma read_loop_stop:
  "sz \<le> 0 \<or> length_d (data i) \<le> offset \<Longrightarrow> 0 \<le> offset \<Longrightarrow>
   read_loop dev i mem sz offset bytes_read buffer = Inr (bytes_read, buffer)"
  by (subst read_loop.simps)
    (auto simp add: byte_to_sector_def inode_length_def Let_def smod_nonneg BLOCK_SECTOR_SIZE_def
       simp del: read_loop.simps)

lemma smod_512: "0 \<le> x \<Longrightarrow> (x :: int) smod 512 = x mod 512"
  by (simp add: signed_modulo_int_def sgn_if)

lemma chunk_size_min:
  "(if sz < (if a < b then a else b) then sz else (if a < b then a else b))
     = min sz (min a (b :: int))"
  by (simp add: min_def)

lemma read_loop_unfold:
  assumes "0 < sz" "byte_to_sector dev i offset = Inr s" "0 \<le> offset"
  shows "read_loop dev i mem sz offset bytes_read buffer =
     (let c = min sz (min (length_d (data i) - offset) (512 - offset mod 512))
      in if c \<le> 0 then Inr (bytes_read, buffer)
         else if offset mod 512 = 0 \<and> c = 512 then
           read_loop dev i mem (sz - c) (offset + c) (bytes_read + c)
             (memcpy buffer (nat bytes_read) (block_read dev s) 512)
         else if \<not> mem then Inr (bytes_read, buffer)
         else
           read_loop dev i mem (sz - c) (offset + c) (bytes_read + c)
             (memcpy buffer (nat bytes_read) (drop (nat (offset mod 512)) (block_read dev s))
                (nat c)))"
  using assms
  by (subst read_loop.simps)
    (simp only: if_True sum.case inode_length_def smod_512 BLOCK_SECTOR_SIZE_def
       of_nat_numeral Let_def chunk_size_min)

lemma read_loop_step:
  assumes ok: "inode_ok i" and off: "0 \<le> offset" "offset < length_d (data i)" and sz: "0 < sz"
    and c: "c = min sz (min (length_d (data i) - offset) (512 - offset mod 512))"
  shows "read_loop dev i True sz offset bytes_read buffer =
         read_loop dev i True (sz - c) (offset + c) (bytes_read + c)
           (memcpy buffer (nat bytes_read)
              (drop (nat offset mod 512) (data_sector dev i (nat offset div 512))) (nat c))"
proof -
  from ok off have lt: "offset < 2 ^ 31" by (simp add: inode_ok_def)
  from byte_to_sector_defined [of offset i dev] ok off
  obtain s where s: "byte_to_sector dev i offset = Inr s" by (auto simp add: inode_ok_def)
  have rd: "block_read dev s = data_sector dev i (nat offset div 512)"
    using off lt s by (rule data_sector_read)
  have so: "nat (offset mod 512) = nat offset mod 512"
    using off by (simp add: nat_mod_distrib)
  have "0 < 512 - offset mod 512"
    using pos_mod_bound [of 512 offset] by linarith
  moreover have "0 < length_d (data i) - offset"
    using off by linarith
  ultimately have "0 < c"
    unfolding c using sz by (simp only: min_less_iff_conj)
  then have cp: "\<not> c \<le> 0" by simp
  note u = read_loop_unfold [OF sz s off(1), of True bytes_read buffer, folded c, unfolded Let_def]
  show ?thesis
  proof (cases "offset mod 512 = 0 \<and> c = 512")
    case True
    with so have "nat offset mod 512 = 0" by simp
    with True cp show ?thesis unfolding u rd so by simp
  next
    case False
    with cp show ?thesis unfolding u rd so by auto
  qed
qed

lemma memcpy_take:
  "b \<le> length buf \<Longrightarrow> c \<le> length src \<Longrightarrow>
   take (b + c) (memcpy buf b src c) = take b buf @ take c src"
  by (simp add: memcpy_def min_def)

lemma memcpy_drop:
  "b \<le> length buf \<Longrightarrow> c \<le> length src \<Longrightarrow>
   drop (b + c + m) (memcpy buf b src c) = drop (b + c + m) buf"
  by (simp add: memcpy_def min_def add.commute add.left_commute)

lemma length_memcpy:
  "b + c \<le> length buf \<Longrightarrow> c \<le> length src \<Longrightarrow> length (memcpy buf b src c) = length buf"
  by (auto simp add: memcpy_def min_def)

lemma read_loop_contents:
  assumes dev: "device_ok dev" and ok: "inode_ok i"
  shows "0 \<le> offset \<Longrightarrow> 0 \<le> sz \<Longrightarrow> 0 \<le> br \<Longrightarrow> nat br + nat sz \<le> length buffer \<Longrightarrow>
     n = min sz (max 0 (length_d (data i) - offset)) \<Longrightarrow>
     read_loop dev i True sz offset br buffer =
       Inr (br + n,
            take (nat br) buffer @ take (nat n) (drop (nat offset) (inode_contents dev i))
              @ drop (nat br + nat n) buffer)"
proof (induction "nat sz" arbitrary: sz offset br buffer n rule: less_induct)
  case less
  let ?L = "length_d (data i)"
  let ?C = "inode_contents dev i"
  show ?case
  proof (cases "sz \<le> 0 \<or> ?L \<le> offset")
    case True
    with less.prems have "n = 0" by (auto simp add: min_def max_def)
    with True less.prems show ?thesis
      by (simp add: read_loop_stop)
  next
    case False
    then have sz: "0 < sz" and off: "offset < ?L" by simp_all
    define c where "c = min sz (min (?L - offset) (512 - offset mod 512))"
    have m: "0 \<le> offset mod 512" "offset mod 512 < 512" by simp_all
    have c: "0 < c" "c \<le> sz" "c \<le> ?L - offset" "c \<le> 512 - offset mod 512"
      using sz off m by (simp_all add: c_def min_def)
    let ?X = "drop (nat offset mod 512) (data_sector dev i (nat offset div 512))"
    let ?buf = "memcpy buffer (nat br) ?X (nat c)"
    have step: "read_loop dev i True sz offset br buffer =
        read_loop dev i True (sz - c) (offset + c) (br + c) ?buf"
      using ok less.prems(1) off sz c_def by (rule read_loop_step)
    have so: "nat (offset mod 512) = nat offset mod 512"
      using less.prems(1) by (simp add: nat_mod_distrib)
    have chunk: "take (nat c) (drop (nat offset) ?C) = take (nat c) ?X"
      using dev ok
    proof (rule inode_contents_chunk)
      show "nat offset + nat c \<le> nat ?L" using c less.prems(1) off by linarith
      show "nat offset mod 512 + nat c \<le> 512" using c m so by linarith
      show "0 < nat c" using c by simp
    qed
    have lenC: "length ?C = nat ?L" using dev ok by (rule length_inode_contents)
    have "length (take (nat c) (drop (nat offset) ?C)) = nat c"
      using lenC c less.prems(1) off by simp
    with chunk have "length (take (nat c) ?X) = nat c"
      by simp
    then have lenX: "nat c \<le> length ?X"
      by (simp add: min_def split: if_splits)
    have b: "nat br \<le> length buffer" "nat br + nat c \<le> length buffer"
      using less.prems c by linarith+
    define n' where "n' = min (sz - c) (max 0 (?L - (offset + c)))"
    have n: "n = c + n'"
      using less.prems(5) c off by (simp add: n'_def min_def max_def)
    have n'0: "0 \<le> n'" using c by (simp add: n'_def)
    have "read_loop dev i True (sz - c) (offset + c) (br + c) ?buf =
       Inr (br + c + n',
            take (nat (br + c)) ?buf @ take (nat n') (drop (nat (offset + c)) ?C)
              @ drop (nat (br + c) + nat n') ?buf)"
    proof (rule less.hyps)
      show "nat (sz - c) < nat sz" using c sz by linarith
      show "0 \<le> offset + c" using less.prems c by linarith
      show "0 \<le> sz - c" using c by linarith
      show "0 \<le> br + c" using less.prems c by linarith
      have "length ?buf = length buffer"
        using b(2) lenX by (rule length_memcpy)
      moreover have "nat (br + c) + nat (sz - c) = nat br + nat sz"
        using less.prems(2,3) c(1,2) by linarith
      ultimately show "nat (br + c) + nat (sz - c) \<le> length ?buf"
        using less.prems(4) by simp
      show "n' = min (sz - c) (max 0 (?L - (offset + c)))" by (rule n'_def)
    qed
    moreover have "nat (br + c) = nat br + nat c" "nat (offset + c) = nat offset + nat c"
      "nat (br + c) + nat n' = nat br + nat c + nat n'"
      using less.prems c by linarith+
    moreover have "take (nat br + nat c) ?buf = take (nat br) buffer @ take (nat c) ?X"
      using b(1) lenX by (rule memcpy_take)
    moreover have "drop (nat br + nat c + nat n') ?buf = drop (nat br + nat c + nat n') buffer"
      using b(1) lenX by (rule memcpy_drop)
    moreover have "take (nat c) (drop (nat offset) ?C) @ take (nat n') (drop (nat offset + nat c) ?C)
        = take (nat n) (drop (nat offset) ?C)"
      using n c n'0 by (simp add: take_add nat_add_distrib add.commute)
    then have "take (nat c) (drop (nat offset) ?C) @ take (nat n') (drop (nat offset + nat c) ?C) @ D
        = take (nat n) (drop (nat offset) ?C) @ D" for D
      by (simp only: append_assoc [symmetric])
    moreover have "nat br + nat n = nat br + nat c + nat n'" "br + n = br + c + n'"
      using n c n'0 by linarith+
    ultimately show ?thesis
      unfolding step by (simp only: chunk [symmetric] append_assoc)
  qed
qed

text \<open>
  Reading a file that lies in the direct sectors. For an open inode of length \<open>L\<close> of
  at most 124 sectors, on a device of whole sectors, an offset \<open>o \<ge> 0\<close> and a size
  \<open>s \<ge> 0\<close> that the buffer can take, \<^verbatim>\<open>inode_read_at\<close> with a bounce buffer at hand
  returns \<open>n = min s (max 0 (L - o))\<close>: the first \<open>n\<close> bytes of the buffer are the
  bytes \<open>o\<close> to \<open>o + n\<close> of the file's contents, the rest of the buffer is as it was.
  The contents are \<open>L\<close> bytes long and \<open>o + n \<le> L\<close>, so no byte at or beyond \<open>L\<close> is
  read.
\<close>

lemma inode_read_at_direct:
  assumes h: "heap st a = Some i" and dev: "device_ok (fs_device st)" and ok: "inode_ok i"
    and off: "0 \<le> offset" "offset < 2 ^ 31" and sz: "0 \<le> sz" "sz < 2 ^ 31"
    and buf: "nat sz \<le> length buffer"
    and n: "n = min sz (max 0 (inode_length i - offset))"
  shows "inode_read_at True (Some a) buffer sz offset st =
           Inr (n, take (nat n) (drop (nat offset) (inode_contents (fs_device st) i))
                     @ drop (nat n) buffer)
         \<and> length (inode_contents (fs_device st) i) = nat (inode_length i)
         \<and> (0 < n \<longrightarrow> offset + n \<le> inode_length i)"
proof (intro conjI)
  show "inode_read_at True (Some a) buffer sz offset st =
           Inr (n, take (nat n) (drop (nat offset) (inode_contents (fs_device st) i))
                     @ drop (nat n) buffer)"
  proof (cases "sz > 0")
    case True
    from read_loop_contents [OF dev ok off(1) sz(1), of 0 buffer n] buf n
    have "read_loop (fs_device st) i True sz offset 0 buffer =
        Inr (n, take (nat n) (drop (nat offset) (inode_contents (fs_device st) i))
                  @ drop (nat n) buffer)"
      by (simp add: inode_length_def)
    with True h show ?thesis by (simp add: inode_read_at_def)
  next
    case False
    with sz n have "n = 0" by (simp add: min_def)
    with False show ?thesis by (simp add: inode_read_at_def)
  qed
  show "length (inode_contents (fs_device st) i) = nat (inode_length i)"
    using dev ok by (simp add: length_inode_contents inode_length_def)
  show "0 < n \<longrightarrow> offset + n \<le> inode_length i"
    using n by (auto simp add: min_def max_def split: if_splits)
qed

lemma inode_read_at_direct_example:
  "inode_read_at True (Some 7) (replicate 100 9) 100 550 small_fs
     = Inr (50, replicate 50 4 @ replicate 50 9)"
proof -
  have h: "heap small_fs 7 = Some small_inode" by (simp add: small_fs_def)
  have dev: "device_ok (fs_device small_fs)"
    by (simp add: device_ok_def small_fs_def numbered_device_def BLOCK_SECTOR_SIZE_def)
  have ok: "inode_ok small_inode" by (simp add: inode_ok_def small_inode_def)
  have b: "bytes_to_sectors 600 = 2" by (simp add: bytes_to_sectors_eq)
  have u: "[0..<2] = [0, 1]" by (simp add: upt_rec)
  have d0: "data_sector numbered_device small_inode 0 = replicate 512 3"
    by (simp add: data_sector_def byte_to_sector_def small_inode_def u32_def DIRECT_BLOCK_def
        array_get_def block_read_def numbered_device_def BLOCK_SECTOR_SIZE_def)
  have d1: "data_sector numbered_device small_inode 1 = replicate 512 4"
    by (simp add: data_sector_def byte_to_sector_def small_inode_def u32_def DIRECT_BLOCK_def
        array_get_def block_read_def numbered_device_def BLOCK_SECTOR_SIZE_def
        signed_divide_int_def)
  have c: "inode_contents (fs_device small_fs) small_inode = replicate 512 3 @ replicate 88 4"
    using b u d0 d1 by (simp add: inode_contents_def inode_length_def small_fs_def)
      (simp add: small_inode_def)
  from inode_read_at_direct [OF h dev ok, of 550 100 "replicate 100 9" 50] c
  show ?thesis by (simp add: inode_length_def) (simp add: small_inode_def)
qed

text \<open>
  C7. The claim: for every inode of length \<open>L\<close>, every offset \<open>o \<ge> 0\<close> and size
  \<open>s \<ge> 0\<close>, \<^verbatim>\<open>inode_read_at\<close> returns \<open>min s (max 0 (L - o))\<close> bytes. That holds while
  the bytes read lie in the first 124 sectors (\<open>inode_read_at_direct\<close>). Beyond them
  every round of the loop calls \<^verbatim>\<open>byte_to_sector\<close>, which reads the index sectors
  through pointers that were never set: reading the last byte of the open inode of 70000
  bytes, where the claim gives 1 byte, the source returns nothing.
\<close>

theorem inode_read_at_indirect_undefined:
  "inode_read_at True (Some 7) [9] 1 69999 indexed_fs = Inl UninitializedPointer"
proof -
  have "byte_to_sector indexed_device indexed_inode 69999 = Inl UninitializedPointer"
    by (simp add: byte_to_sector_def indexed_inode_def u32_def BLOCK_SECTOR_SIZE_def
        DIRECT_BLOCK_def signed_divide_int_def)
  then have "read_loop indexed_device indexed_inode True 1 69999 0 [9] = Inl UninitializedPointer"
    by (subst read_loop.simps) simp
  then show ?thesis
    by (simp add: inode_read_at_def indexed_fs_def)
qed

subsection \<open>Writing and reading back\<close>

lemma write_loop_unfold:
  assumes "0 < sz" "byte_to_sector dev i offset = Inr s" "0 \<le> offset"
  shows "write_loop dev i mem sz offset bytes_written buffer =
     (let c = min sz (min (length_d (data i) - offset) (512 - offset mod 512))
      in if c \<le> 0 then Inr (bytes_written, dev)
         else if offset mod 512 = 0 \<and> c = 512 then
           write_loop (block_write dev s (drop (nat bytes_written) buffer))
             i mem (sz - c) (offset + c) (bytes_written + c) buffer
         else if \<not> mem then Inr (bytes_written, dev)
         else
           write_loop
             (block_write dev s
                (memcpy (if offset mod 512 > 0 \<or> c < 512 - offset mod 512
                         then block_read dev s else replicate 512 0)
                   (nat (offset mod 512)) (drop (nat bytes_written) buffer) (nat c)))
             i mem (sz - c) (offset + c) (bytes_written + c) buffer)"
  using assms
  by (subst write_loop.simps)
    (simp only: if_True sum.case inode_length_def smod_512 BLOCK_SECTOR_SIZE_def
       of_nat_numeral Let_def chunk_size_min)

lemma write_loop_reaches_indirect:
  assumes len: "length (sectors (data i)) = 124"
    and L: "124 * 512 < length_d (data i)" "length_d (data i) < 2 ^ 31"
  shows "0 \<le> offset \<Longrightarrow> offset \<le> 63488 \<Longrightarrow> 63488 - offset < sz \<Longrightarrow>
     write_loop dev i True sz offset bytes_written buffer = Inl UninitializedPointer"
proof (induction "nat (63488 - offset)" arbitrary: dev sz offset bytes_written rule: less_induct)
  case less
  from less.prems have sz: "0 < sz" by simp
  show ?case
  proof (cases "offset = 63488")
    case True
    with L have "byte_to_sector dev i offset = Inl UninitializedPointer"
      by (simp add: byte_to_sector_def u32_def BLOCK_SECTOR_SIZE_def DIRECT_BLOCK_def
          signed_divide_int_def)
    with sz show ?thesis
      by (subst write_loop.simps) simp
  next
    case False
    with less.prems have off: "offset < 63488" by simp
    define c where "c = min sz (min (length_d (data i) - offset) (512 - offset mod 512))"
    have "nat offset < 124 * 512" using off less.prems by simp
    then have idx: "nat offset div 512 < 124" by (simp add: div_less_iff_less_mult)
    with less.prems off L len
    have "byte_to_sector dev i offset = Inr (sectors (data i) ! (nat offset div 512))"
      by (intro byte_to_sector_direct) simp_all
    note u = write_loop_unfold [OF sz this less.prems(1), of True bytes_written buffer,
        folded c_def, unfolded Let_def]
    have m: "0 \<le> offset mod 512" "offset mod 512 < 512" by simp_all
    have "0 < 512 - offset mod 512" using m by linarith
    moreover have "0 < length_d (data i) - offset" using off L by linarith
    ultimately have cp: "0 < c"
      unfolding c_def using sz by (simp only: min_less_iff_conj)
    have c1: "c \<le> sz" "c \<le> 512 - offset mod 512"
      by (simp_all add: c_def)
    have "offset div 512 = int (nat offset div 512)"
      using less.prems(1) by (simp add: zdiv_int)
    with idx have "offset div 512 < 124" by simp
    then have "offset div 512 * 512 + 512 \<le> 63488" by simp
    moreover have "offset - offset mod 512 = offset div 512 * 512"
      by (simp add: minus_mod_eq_div_mult)
    ultimately have nx: "offset + c \<le> 63488" using c1 by linarith
    have ih: "write_loop dev' i True (sz - c) (offset + c) (bytes_written + c) buffer
        = Inl UninitializedPointer" for dev'
    proof (rule less.hyps)
      show "nat (63488 - (offset + c)) < nat (63488 - offset)" using cp off by linarith
      show "0 \<le> offset + c" using cp less.prems by linarith
      show "offset + c \<le> 63488" by (rule nx)
      show "63488 - (offset + c) < sz - c" using less.prems by linarith
    qed
    show ?thesis
    proof (cases "offset mod 512 = 0 \<and> c = 512")
      case True
      with cp show ?thesis
        unfolding u using ih [of "block_write dev (sectors (data i) ! (nat offset div 512))
                                    (drop (nat bytes_written) buffer)"]
        by simp
    next
      case False
      with cp show ?thesis
        unfolding u by (auto simp add: ih)
    qed
  qed
qed

lemma filter_Not_replicate: "filter Not (replicate n False) = replicate n False"
  by (induction n) simp_all

lemma blank_unused: "free_map_unused (free_map blank_fs) = 127"
  by (simp add: blank_fs_def free_map_unused_def filter_Not_replicate)

lemma create_then_open:
  assumes len: "0 \<le> len" "len \<le> (124 + 128 * 128) * 512"
    and free: "compute_total_sectors (bytes_to_sectors len) + 1 \<le> free_map_unused (free_map st)"
    and wf: "\<forall>e \<in> set (open_inodes st). \<exists>i. heap st e = Some i \<and> sector i \<noteq> s"
  shows "\<exists>st1 st2 i. inode_create True position s len st = Inr (True, st1)
            \<and> inode_open (Some a) s st1 = Inr (Some a, st2)
            \<and> heap st2 a = Some i \<and> length_d (data i) = len
            \<and> length (sectors (data i)) = 124 \<and> deny_write_cnt i = 0"
proof -
  let ?t = "compute_total_sectors (bytes_to_sectors len)"
  let ?d = "calloc_inode_disk \<lparr> length_d := len, magic := INODE_MAGIC \<rparr>"
  from len have t: "?t \<le> 16637"
    by (intro compute_total_sectors_ceiling bytes_to_sectors_ceiling) simp_all
  from write_sectors_to_disk_ok [OF t, of ?d position st] obtain d' st' where
    w: "write_sectors_to_disk ?t ?d position st = Inr (d', st')"
    and d': "length_d d' = len" "length (sectors d') = 124"
    and st': "heap st' = heap st" "open_inodes st' = open_inodes st"
    by (auto simp add: length_calloc_sectors)
  let ?st1 = "st' \<lparr> fs_device := block_write (fs_device st') s (encode_inode d') \<rparr>"
  from len t free w have c: "inode_create True position s len st = Inr (True, ?st1)"
    by (simp add: inode_create_def Let_def MAX_BLOCK_NUMBER_def)
  from wf st' have f: "find_open (heap ?st1) (open_inodes ?st1) s = Inr None"
    by (intro find_open_none) simp
  let ?n = "new_inode (fs_device ?st1) s"
  let ?st2 = "?st1 \<lparr> heap := (heap ?st1) (a \<mapsto> ?n), open_inodes := a # open_inodes ?st1 \<rparr>"
  from f have o: "inode_open (Some a) s ?st1 = Inr (Some a, ?st2)"
    by (simp add: inode_open_def new_inode_def)
  have h: "heap ?st2 a = Some ?n"
    by simp
  have "block_read (fs_device ?st1) s = encode_inode d'"
    using d' by (simp add: block_read_def block_write_def BLOCK_SECTOR_SIZE_def length_encode_inode)
  then have l: "length_d (data ?n) = len"
    using d' len by (simp add: new_inode_def length_of_encoded_inode)
  have n: "length (sectors (data ?n)) = 124" "deny_write_cnt ?n = 0"
    by (simp_all add: new_inode_def decode_inode_def)
  from c o h l n show ?thesis
    by blast
qed

text \<open>
  C5. The claim: a pattern written over the whole of a new file is read back unchanged,
  also for files of 125 sectors and more. A file of 125 sectors (64000 bytes) is created
  on sector 127 and opened. The write of the pattern goes through the 124 direct
  sectors and, for the 125th, into the branch of \<^verbatim>\<open>byte_to_sector\<close> that reads the index
  sectors through pointers that were never set: the write does not return a count, and
  there is nothing to read back.
\<close>

theorem write_125_sectors_undefined:
  "\<exists>st1 st2. inode_create True 0 127 64000 blank_fs = Inr (True, st1)
     \<and> inode_open (Some 7) 127 st1 = Inr (Some 7, st2)
     \<and> inode_write_at True (Some 7) (replicate 64000 1) 64000 0 st2 = Inl UninitializedPointer"
proof -
  have t: "compute_total_sectors (bytes_to_sectors 64000) = 126"
    by (simp add: bytes_to_sectors_eq compute_total_sectors_def DIRECT_BLOCK_def)
  have o: "\<forall>e \<in> set (open_inodes blank_fs). \<exists>i. heap blank_fs e = Some i \<and> sector i \<noteq> 127"
    by (simp add: blank_fs_def)
  from create_then_open [of 64000 blank_fs 127 0 7] t o blank_unused
  obtain st1 st2 i where
    c: "inode_create True 0 127 64000 blank_fs = Inr (True, st1)"
    and op: "inode_open (Some 7) 127 st1 = Inr (Some 7, st2)"
    and i: "heap st2 7 = Some i" "length_d (data i) = 64000"
      "length (sectors (data i)) = 124" "deny_write_cnt i = 0"
    by auto
  from i have "write_loop (fs_device st2) i True 64000 0 0 (replicate 64000 1)
      = Inl UninitializedPointer"
    by (intro write_loop_reaches_indirect) simp_all
  with i have "inode_write_at True (Some 7) (replicate 64000 1) 64000 0 st2
      = Inl UninitializedPointer"
    by (simp add: inode_write_at_def deref_def)
  with c op show ?thesis by blast
qed

subsection \<open>Closing a removed inode\<close>

lemma fresh_free_map:
  "free_map fresh_fs = [False, False, False, False, False, False, False, False, False, False,
                        True, False, False, False, False, False]"
  by (simp add: fresh_fs_def eval_nat_numeral)

text \<open>
  C2. The claim: the last close of a removed inode releases every sector of the file
  once, so the free count grows by the number of sectors the file has. In the source
  the number of data sectors to release is \<^verbatim>\<open>length / BLOCK_SECTOR_SIZE\<close>, rounded
  down, where \<^verbatim>\<open>inode_create\<close> rounded up. A file of 600 bytes
  created on sector 10 has the data sectors 0 and 1; after the file is opened, removed
  and closed, sector 0 and sector 10 are free again and sector 1 is still in use.
\<close>

theorem close_removed_600_leaks_sector:
  "\<exists>st1 st4. create_open_remove_close 10 600 7 fresh_fs = Inr (st1, st4)
     \<and> free_map st1 = [True, True, False, False, False, False, False, False, False, False,
                        True, False, False, False, False, False]
     \<and> free_map st4 = [False, True, False, False, False, False, False, False, False, False,
                        False, False, False, False, False, False]"
proof -
  let ?c = "calloc_inode_disk \<lparr> length_d := 600, magic := INODE_MAGIC \<rparr>"
  let ?d = "\<lparr> sectors = (replicate 124 0) [0 := 0, 1 := 1], ib = 0, is_directory = False,
              length_d = 600, magic = INODE_MAGIC \<rparr>"
  let ?fm1 = "[True, True, False, False, False, False, False, False, False, False,
               True, False, False, False, False, False]"
  let ?fm4 = "[False, True, False, False, False, False, False, False, False, False,
               False, False, False, False, False, False]"
  have t: "compute_total_sectors (bytes_to_sectors 600) = 2"
    by (simp add: bytes_to_sectors_eq compute_total_sectors_def DIRECT_BLOCK_def)
  have dl: "direct_loop 0 2 (free_map fresh_fs) 0 ?c = (2, ?fm1, 1, ?d)"
    by (simp add: fresh_free_map free_map_allocate_def DIRECT_BLOCK_def calloc_inode_disk_def)
  let ?st1 = "fresh_fs \<lparr> fs_device := block_write (fs_device fresh_fs) 10 (encode_inode ?d),
                         free_map := ?fm1 \<rparr>"
  have w: "write_sectors_to_disk 2 ?c 0 fresh_fs = Inr (?d, fresh_fs \<lparr> free_map := ?fm1 \<rparr>)"
    by (simp only: write_sectors_to_disk_def dl) simp
  have c: "inode_create True 0 10 600 fresh_fs = Inr (True, ?st1)"
    by (simp add: inode_create_def t w MAX_BLOCK_NUMBER_def fresh_unused)
  have ok: "inode_disk_ok ?d"
    by (auto simp add: inode_disk_ok_def INODE_MAGIC_def list_all_iff
        dest!: set_update_subset_insert [THEN subsetD])
  let ?i = "\<lparr> sector = 10, open_cnt = 1, removed = False, deny_write_cnt = 0, data = ?d \<rparr>"
  let ?st2 = "?st1 \<lparr> heap := [7 \<mapsto> ?i], open_inodes := [7] \<rparr>"
  have "block_read (fs_device ?st1) 10 = encode_inode ?d"
    by (simp add: block_read_def block_write_def BLOCK_SECTOR_SIZE_def length_encode_inode)
  with decode_encode_inode [OF ok] have o: "inode_open (Some 7) 10 ?st1 = Inr (Some 7, ?st2)"
    by (simp add: inode_open_def fresh_fs_def)
  let ?st3 = "?st1 \<lparr> heap := [7 \<mapsto> ?i \<lparr> removed := True \<rparr>], open_inodes := [7] \<rparr>"
  have r: "inode_remove (Some 7) ?st2 = Inr ?st3"
    by (simp add: inode_remove_def)
  let ?st4 = "?st1 \<lparr> free_map := ?fm4, heap := Map.empty, open_inodes := [] \<rparr>"
  have cl: "inode_close (Some 7) ?st3 = Inr ?st4"
    by (simp add: inode_close_def u32_def BLOCK_SECTOR_SIZE_def signed_divide_int_def
        array_get_def free_map_release_def DIRECT_BLOCK_def Let_def)
  from c o r cl show ?thesis
    by (simp add: create_open_remove_close_def)
qed

end
